theory Spec2Isabelle
  imports Main "HOL-Library.Multiset" "HOL-Library.AList"
begin

section \<open>Answer extraction and self-correction (data_extractor.py)\<close>

subsection \<open>Constants\<close>

definition MAX_MARKDOWN_CONTEXT_CHARS :: nat where
  "MAX_MARKDOWN_CONTEXT_CHARS = 280000"

definition MAX_LLM_RETRIES :: nat where
  "MAX_LLM_RETRIES = 3"

definition TRUNCATION_MARKER :: string where
  "TRUNCATION_MARKER = [CHR 0x0A] @ ''...[DOCUMENT TRUNCATED]''"

subsection \<open>Context truncation\<close>

text \<open>
  \<open>_truncate_markdown(markdown_content, product_name)\<close>. A Python string is a sequence of
  code points; one \<^typ>\<open>char\<close> of the model stands for one code point, so \<^const>\<open>length\<close>
  is Python's \<open>len\<close>. The product name is only logged.
\<close>

definition truncate_markdown :: "string \<Rightarrow> string \<Rightarrow> string" where
  "truncate_markdown markdown_content product_name =
     (if length markdown_content > MAX_MARKDOWN_CONTEXT_CHARS
      then take MAX_MARKDOWN_CONTEXT_CHARS markdown_content @ TRUNCATION_MARKER
      else markdown_content)"


subsection \<open>Python values\<close>

text \<open>
  The values \<open>json.loads\<close> produces: \<open>None\<close>, booleans, numbers, strings, lists and
  dicts. A dict is the list of its items in insertion order (its keys are unique); the
  payload of a number is left open, no operation of the program looks into it.
\<close>

datatype 'n json =
    JNull
  | JBool bool
  | JNum 'n
  | JStr string
  | JArr "'n json list"
  | JObj "(string \<times> 'n json) list"

datatype py_error = TypeError | KeyError | ValueError | JSONDecodeError | RecursionError

text \<open>\<open>except (json.JSONDecodeError, ValueError)\<close>: the exceptions the two handlers catch.\<close>

definition handled :: "py_error \<Rightarrow> bool" where
  "handled e = (e = JSONDecodeError \<or> e = ValueError)"

definition startswith :: "string \<Rightarrow> string \<Rightarrow> bool" where
  "startswith s p = (take (length p) s = p)"

definition endswith :: "string \<Rightarrow> string \<Rightarrow> bool" where
  "endswith s p = (length p \<le> length s \<and> drop (length s - length p) s = p)"

text \<open>\<open>str.isspace\<close> on the code points below 256, and \<open>str.strip()\<close>.\<close>

definition py_isspace :: "char \<Rightarrow> bool" where
  "py_isspace c = (c \<in> set [CHR 0x09, CHR 0x0A, CHR 0x0B, CHR 0x0C, CHR 0x0D,
                              CHR 0x1C, CHR 0x1D, CHR 0x1E, CHR 0x1F, CHR 0x20,
                              CHR 0x85, CHR 0xA0])"

definition py_strip :: "string \<Rightarrow> string" where
  "py_strip s = rev (dropWhile py_isspace (rev (dropWhile py_isspace s)))"

text \<open>\<open>p in s\<close> for two strings: \<open>p\<close> occurs in \<open>s\<close> as a contiguous run.\<close>

fun str_contains :: "string \<Rightarrow> string \<Rightarrow> bool" where
  "str_contains [] p = (p = [])"
| "str_contains (c # cs) p = (startswith (c # cs) p \<or> str_contains cs p)"

text \<open>\<open>d.get(k)\<close> (\<open>None\<close> when the key is absent) and \<open>d.get(k, default)\<close>.\<close>

definition dict_get :: "(string \<times> 'n json) list \<Rightarrow> string \<Rightarrow> 'n json" where
  "dict_get d k = (case map_of d k of None \<Rightarrow> JNull | Some v \<Rightarrow> v)"

definition dict_get_default :: "(string \<times> 'n json) list \<Rightarrow> string \<Rightarrow> 'n json \<Rightarrow> 'n json" where
  "dict_get_default d k dflt = (case map_of d k of None \<Rightarrow> dflt | Some v \<Rightarrow> v)"

text \<open>
  \<open>str(v)\<close>: a string is returned as it is. The text Python prints for the other values
  (\<open>None\<close>, numbers, nested lists and dicts) is the parameter \<open>repr\<close>; \<open>str\<close> of a value
  the decoder has returned is taken to return.
\<close>

definition py_str :: "('n json \<Rightarrow> string) \<Rightarrow> 'n json \<Rightarrow> string" where
  "py_str repr v = (case v of JStr s \<Rightarrow> s | _ \<Rightarrow> repr v)"

text \<open>
  \<open>k in x\<close> for a string \<open>k\<close>: key membership in a dict, element membership in a list,
  substring test in a string, \<open>TypeError\<close> on every other value.
\<close>

definition py_contains :: "'n json \<Rightarrow> string \<Rightarrow> py_error + bool" where
  "py_contains x k =
     (case x of
        JObj d \<Rightarrow> Inr (k \<in> fst ` set d)
      | JArr xs \<Rightarrow> Inr (JStr k \<in> set xs)
      | JStr s \<Rightarrow> Inr (str_contains s k)
      | _ \<Rightarrow> Inl TypeError)"

text \<open>\<open>x[k]\<close> for a string \<open>k\<close>: only a dict can be indexed by a string.\<close>

definition py_getitem :: "'n json \<Rightarrow> string \<Rightarrow> py_error + 'n json" where
  "py_getitem x k =
     (case x of
        JObj d \<Rightarrow> (case map_of d k of None \<Rightarrow> Inl KeyError | Some v \<Rightarrow> Inr v)
      | _ \<Rightarrow> Inl TypeError)"

subsection \<open>Data model\<close>

record question =
  q_id :: string
  q_text :: string
  applies_to_categories :: "string list option"

record questions_config =
  categories :: "string list"
  questions :: "question list"

record 'n answer_record =
  question_id :: string
  question_text :: string
  answer :: string
  category :: string
  status :: string
  correction_reason :: "'n json option"

record 'n product_extraction_result =
  product_name :: string
  answers :: "'n answer_record list"

subsection \<open>The LLM gateway and the retrying JSON caller\<close>

text \<open>
  One call of \<open>call_llm\<close> raises, returns \<open>None\<close> or returns a text. The gateway is the
  sequence of the outcomes of its calls, \<open>gw n\<close> for call number \<open>n\<close>; the state threaded
  through the program is the number of calls issued so far. The prompts only reach the
  gateway, whose outcomes are arbitrary, so they are not built.
\<close>

datatype llm_reply = Raises | Returns "string option"

definition json_shaped :: "string \<Rightarrow> bool" where
  "json_shaped stripped_response =
     (startswith stripped_response ''{'' \<and> endswith stripped_response ''}'' \<or>
      startswith stripped_response ''['' \<and> endswith stripped_response '']'')"

text \<open>\<open>_call_llm_with_retry\<close>: the first argument after the gateway is the number of attempts left.\<close>

fun call_llm_with_retry :: "(nat \<Rightarrow> llm_reply) \<Rightarrow> nat \<Rightarrow> nat \<Rightarrow> string option \<times> nat" where
  "call_llm_with_retry gw 0 n = (None, n)"
| "call_llm_with_retry gw (Suc k) n =
     (case gw n of
        Returns (Some response) \<Rightarrow>
          if response \<noteq> [] \<and> json_shaped (py_strip response) then (Some response, Suc n)
          else call_llm_with_retry gw k (Suc n)
      | _ \<Rightarrow> call_llm_with_retry gw k (Suc n))"

subsection \<open>Decoding a response\<close>

text \<open>
  \<open>re.sub(r"```json\n(.*?)\n```", r"\1", s, flags=re.DOTALL)\<close> and its sibling with the
  opening \<open>```\<close>: from left to right, an opening fence followed later by a closing
  \<open>\n```\<close> is replaced by the text between them, up to the first such closing.
\<close>

definition FENCE_CLOSE :: string where
  "FENCE_CLOSE = [CHR 0x0A] @ ''```''"

fun find_close :: "string \<Rightarrow> (string \<times> string) option" where
  "find_close [] = None"
| "find_close (c # cs) =
     (if startswith (c # cs) FENCE_CLOSE then Some ([], drop (length FENCE_CLOSE) (c # cs))
      else (case find_close cs of None \<Rightarrow> None | Some (body, rest) \<Rightarrow> Some (c # body, rest)))"

lemma find_close_length:
  "find_close s = Some (body, rest) \<Longrightarrow> length rest < length s"
  by (induction s arbitrary: body rest)
     (auto simp: FENCE_CLOSE_def split: if_splits option.splits)

function strip_fence :: "string \<Rightarrow> string \<Rightarrow> string" where
  "strip_fence opn [] = []"
| "strip_fence opn (c # cs) =
     (if startswith (c # cs) opn then
        (case find_close (drop (length opn) (c # cs)) of
           None \<Rightarrow> c # cs
         | Some (body, rest) \<Rightarrow> body @ strip_fence opn rest)
      else c # strip_fence opn cs)"
  by pat_completeness auto
termination
proof (relation "measure (\<lambda>(opn, s). length s)")
  fix opn :: string and c cs x2 body rest
  assume "find_close (drop (length opn) (c # cs)) = Some x2" "(body, rest) = x2"
  then have "length rest < length (drop (length opn) (c # cs))"
    using find_close_length by metis
  then show "((opn, rest), (opn, c # cs)) \<in> measure (\<lambda>(opn, s). length s)"
    by simp
qed simp_all

definition clean_response :: "string \<Rightarrow> string" where
  "clean_response response_str =
     py_strip (strip_fence ''```'' (strip_fence (''```json'' @ [CHR 0x0A]) response_str))"

text \<open>
  The three lines both callers share: remove the fences, strip, \<open>json.loads\<close>. The
  decoder \<open>json_loads\<close> is a parameter: it returns the decoded value or raises, with
  \<open>JSONDecodeError\<close> on a text that is not JSON, with another exception where the library
  gives up (\<open>RecursionError\<close> on a deeply nested text).
\<close>

definition decode_response ::
  "(string \<Rightarrow> py_error + 'n json) \<Rightarrow> string \<Rightarrow> py_error + 'n json" where
  "decode_response json_loads response_str = json_loads (clean_response response_str)"

subsection \<open>Category-scoped extraction\<close>

definition questions_for_category :: "question list \<Rightarrow> string \<Rightarrow> question list" where
  "questions_for_category all_questions cat =
     filter (\<lambda>q. cat \<in> set (case applies_to_categories q of None \<Rightarrow> [] | Some cs \<Rightarrow> cs))
            all_questions"

definition error_llm_record :: "string \<Rightarrow> question \<Rightarrow> 'n answer_record" where
  "error_llm_record cat q_dict =
     \<lparr>question_id = q_id q_dict, question_text = q_text q_dict,
      answer = ''Error: LLM extraction failed'', category = cat, status = ''error_llm'',
      correction_reason = None\<rparr>"

definition raw_record ::
  "('n json \<Rightarrow> string) \<Rightarrow> (string \<times> 'n json) list \<Rightarrow> string \<Rightarrow> question \<Rightarrow> 'n answer_record" where
  "raw_record repr answers_json cat q_dict =
     \<lparr>question_id = q_id q_dict, question_text = q_text q_dict,
      answer = py_str repr
                 (dict_get_default answers_json (q_id q_dict) (JStr ''Answer not found by LLM.'')),
      category = cat, status = ''raw'', correction_reason = None\<rparr>"

definition error_parsing_record :: "string \<Rightarrow> question \<Rightarrow> 'n answer_record" where
  "error_parsing_record cat q_dict =
     \<lparr>question_id = q_id q_dict, question_text = q_text q_dict,
      answer = ''Error: Parsing LLM response failed'', category = cat,
      status = ''error_parsing'', correction_reason = None\<rparr>"

text \<open>\<open>", ".join(xs)\<close>.\<close>

fun join_comma :: "string list \<Rightarrow> string" where
  "join_comma [] = []"
| "join_comma [x] = x"
| "join_comma (x # y # ys) = x @ '', '' @ join_comma (y # ys)"

definition not_implemented_record :: "question \<Rightarrow> 'n answer_record" where
  "not_implemented_record q_dict =
     \<lparr>question_id = q_id q_dict, question_text = q_text q_dict,
      answer = ''Error: Batch extraction not fully implemented'',
      category = join_comma (case applies_to_categories q_dict of
                               None \<Rightarrow> [''N/A''] | Some cs \<Rightarrow> cs),
      status = ''error_not_implemented'', correction_reason = None\<rparr>"

text \<open>
  The body of the loop over the categories, from call number \<open>n\<close>: the records it appends
  to \<open>all_answers_for_product\<close>, or the exception that leaves the \<open>try\<close> block uncaught,
  and the number of gateway calls issued after it. A decoded value that is no dict raises
  \<open>ValueError\<close>, which the handler catches like \<open>JSONDecodeError\<close>.
\<close>

definition category_answers ::
  "(nat \<Rightarrow> llm_reply) \<Rightarrow> (string \<Rightarrow> py_error + 'n json) \<Rightarrow> ('n json \<Rightarrow> string) \<Rightarrow>
   question list \<Rightarrow> string \<Rightarrow> nat \<Rightarrow> (py_error + 'n answer_record list) \<times> nat" where
  "category_answers gw json_loads repr all_questions cat n =
     (if questions_for_category all_questions cat = [] then (Inr [], n)
      else
        (case call_llm_with_retry gw MAX_LLM_RETRIES n of
           (None, n') \<Rightarrow>
             (Inr (map (error_llm_record cat) (questions_for_category all_questions cat)), n')
         | (Some response_str, n') \<Rightarrow>
             if response_str = [] then
               (Inr (map (error_llm_record cat) (questions_for_category all_questions cat)), n')
             else
               (case decode_response json_loads response_str of
                  Inr (JObj answers_json) \<Rightarrow>
                    (Inr (map (raw_record repr answers_json cat)
                              (questions_for_category all_questions cat)), n')
                | Inr _ \<Rightarrow>
                    (Inr (map (error_parsing_record cat)
                              (questions_for_category all_questions cat)), n')
                | Inl e \<Rightarrow>
                    if handled e then
                      (Inr (map (error_parsing_record cat)
                                (questions_for_category all_questions cat)), n')
                    else (Inl e, n'))))"

text \<open>
  The loop: an exception that leaves the body ends the run, and the records appended so
  far are lost with it.
\<close>

fun extract_by_categories ::
  "(nat \<Rightarrow> llm_reply) \<Rightarrow> (string \<Rightarrow> py_error + 'n json) \<Rightarrow> ('n json \<Rightarrow> string) \<Rightarrow>
   question list \<Rightarrow> string list \<Rightarrow> 'n answer_record list \<times> nat \<Rightarrow>
   (py_error + 'n answer_record list) \<times> nat" where
  "extract_by_categories gw json_loads repr all_questions [] (all_answers, n) = (Inr all_answers, n)"
| "extract_by_categories gw json_loads repr all_questions (cat # cats) (all_answers, n) =
     (case category_answers gw json_loads repr all_questions cat n of
        (Inl e, n') \<Rightarrow> (Inl e, n')
      | (Inr recs, n') \<Rightarrow>
          extract_by_categories gw json_loads repr all_questions cats (all_answers @ recs, n'))"

text \<open>
  \<open>extract_answers_for_product\<close>. \<open>provider\<close> is \<open>_get_full_markdown_for_product\<close>, the
  document text of a product or \<open>None\<close>. The outcome is the returned value (\<open>Inr\<close>) or the
  exception raised (\<open>Inl\<close>), paired with the number of gateway calls issued so far.
\<close>

definition extract_answers_for_product ::
  "(string \<Rightarrow> string option) \<Rightarrow> (nat \<Rightarrow> llm_reply) \<Rightarrow> (string \<Rightarrow> py_error + 'n json) \<Rightarrow>
   ('n json \<Rightarrow> string) \<Rightarrow> string \<Rightarrow> questions_config \<Rightarrow> bool \<Rightarrow> nat \<Rightarrow>
   (py_error + 'n product_extraction_result option) \<times> nat" where
  "extract_answers_for_product provider gw json_loads repr pname cfg extract_by_category n =
     (case provider pname of
        None \<Rightarrow> (Inr None, n)
      | Some product_markdown_full \<Rightarrow>
          if product_markdown_full = [] then (Inr None, n)
          else if categories cfg = [] \<or> questions cfg = [] then
            (Inr (Some \<lparr>product_name = pname, answers = []\<rparr>), n)
          else if extract_by_category then
            (case extract_by_categories gw json_loads repr (questions cfg) (categories cfg) ([], n) of
               (Inl e, n') \<Rightarrow> (Inl e, n')
             | (Inr all_answers, n') \<Rightarrow>
                 (Inr (Some \<lparr>product_name = pname, answers = all_answers\<rparr>), n'))
          else
            (Inr (Some \<lparr>product_name = pname,
                        answers = map not_implemented_record (questions cfg)\<rparr>), n))"

subsection \<open>Self-correction review\<close>

definition REQUIRED_FIELDS :: "string list" where
  "REQUIRED_FIELDS = [''question_id'', ''original_answer'', ''suggested_correction'', ''reason'']"

fun valid_corrections :: "'n json list \<Rightarrow> (string \<times> 'n json) list list" where
  "valid_corrections [] = []"
| "valid_corrections (item # items) =
     (case item of
        JObj d \<Rightarrow>
          if (\<forall>k \<in> set REQUIRED_FIELDS. k \<in> fst ` set d) then d # valid_corrections items
          else valid_corrections items
      | _ \<Rightarrow> valid_corrections items)"

text \<open>
  The \<open>try\<close> block of \<open>self_correct_answers\<close> on the outcome of decoding. \<open>Inr None\<close> is
  the \<open>None\<close> returned by the handler of \<open>JSONDecodeError\<close> and \<open>ValueError\<close> (raised by the
  decoder, or by the check of the key); \<open>Inl e\<close> is an exception the handler does not catch.
\<close>

definition review_corrections ::
  "py_error + 'n json \<Rightarrow> py_error + (string \<times> 'n json) list list option" where
  "review_corrections decoded =
     (case decoded of
        Inl e \<Rightarrow> if handled e then Inr None else Inl e
      | Inr review_data \<Rightarrow>
          (case py_contains review_data ''corrections'' of
             Inl e \<Rightarrow> Inl e
           | Inr False \<Rightarrow> Inr None
           | Inr True \<Rightarrow>
               (case py_getitem review_data ''corrections'' of
                  Inl e \<Rightarrow> Inl e
                | Inr (JArr corrections_list) \<Rightarrow> Inr (Some (valid_corrections corrections_list))
                | Inr _ \<Rightarrow> Inr None)))"

definition self_correct_answers ::
  "(string \<Rightarrow> string option) \<Rightarrow> (nat \<Rightarrow> llm_reply) \<Rightarrow> (string \<Rightarrow> py_error + 'n json) \<Rightarrow>
   string \<Rightarrow> 'n answer_record list \<Rightarrow> nat \<Rightarrow>
   (py_error + (string \<times> 'n json) list list option) \<times> nat" where
  "self_correct_answers provider gw json_loads pname extracted_answers n =
     (case provider pname of
        None \<Rightarrow> (Inr None, n)
      | Some product_markdown_full \<Rightarrow>
          if product_markdown_full = [] then (Inr None, n)
          else
            (case call_llm_with_retry gw MAX_LLM_RETRIES n of
               (None, n') \<Rightarrow> (Inr None, n')
             | (Some response_str, n') \<Rightarrow>
                 if response_str = [] then (Inr None, n')
                 else (review_corrections (decode_response json_loads response_str), n')))"

subsection \<open>Applying corrections\<close>

text \<open>
  \<open>{ans['question_id']: ans.copy() for ans in original_answers}\<close>: a later record with the
  same id replaces the earlier one at the earlier one's place.
\<close>

definition answers_map :: "'n answer_record list \<Rightarrow> (string \<times> 'n answer_record) list" where
  "answers_map original_answers =
     fold (\<lambda>ans m. AList.update (question_id ans) ans m) original_answers []"

text \<open>
  \<open>q_id in updated_answers_map\<close>, the keys being strings: a list or a dict is unhashable
  (\<open>TypeError\<close>), any other value that is not a string is no key.
\<close>

definition key_in_map :: "'n json \<Rightarrow> (string \<times> 'a) list \<Rightarrow> py_error + bool" where
  "key_in_map k m =
     (case k of
        JStr s \<Rightarrow> Inr (s \<in> fst ` set m)
      | JArr _ \<Rightarrow> Inl TypeError
      | JObj _ \<Rightarrow> Inl TypeError
      | _ \<Rightarrow> Inr False)"

definition correct_record ::
  "('n json \<Rightarrow> string) \<Rightarrow> (string \<times> 'n json) list \<Rightarrow> 'n answer_record \<Rightarrow> 'n answer_record" where
  "correct_record repr correction ans =
     ans\<lparr>answer := py_str repr (dict_get correction ''suggested_correction''),
         status := ''corrected'',
         correction_reason :=
           Some (dict_get_default correction ''reason'' (JStr ''No reason provided.''))\<rparr>"

fun apply_loop ::
  "('n json \<Rightarrow> string) \<Rightarrow> (string \<times> 'n json) list list \<Rightarrow>
   (string \<times> 'n answer_record) list \<Rightarrow> py_error + (string \<times> 'n answer_record) list" where
  "apply_loop repr [] m = Inr m"
| "apply_loop repr (correction # rest) m =
     (case key_in_map (dict_get correction ''question_id'') m of
        Inl e \<Rightarrow> Inl e
      | Inr False \<Rightarrow> apply_loop repr rest m
      | Inr True \<Rightarrow>
          (case dict_get correction ''question_id'' of
             JStr k \<Rightarrow>
               (case map_of m k of
                  Some ans \<Rightarrow> apply_loop repr rest (AList.update k (correct_record repr correction ans) m)
                | None \<Rightarrow> Inl KeyError)
           | _ \<Rightarrow> Inl KeyError))"

definition apply_corrections ::
  "('n json \<Rightarrow> string) \<Rightarrow> 'n answer_record list \<Rightarrow> (string \<times> 'n json) list list \<Rightarrow> string \<Rightarrow>
   py_error + 'n answer_record list" where
  "apply_corrections repr original_answers corrections_list pname =
     (case apply_loop repr corrections_list (answers_map original_answers) of
        Inl e \<Rightarrow> Inl e
      | Inr updated_answers_map \<Rightarrow> Inr (map snd updated_answers_map))"

subsection \<open>Notions used in the statements\<close>

text \<open>A reply the retrying caller returns to its caller: a non-empty text of JSON shape.\<close>

definition accepted :: "llm_reply \<Rightarrow> bool" where
  "accepted reply =
     (case reply of
        Returns (Some response) \<Rightarrow> response \<noteq> [] \<and> json_shaped (py_strip response)
      | _ \<Rightarrow> False)"

text \<open>No question is selected for two different configured categories.\<close>

definition single_category :: "questions_config \<Rightarrow> bool" where
  "single_category cfg =
     (\<forall>q \<in> set (questions cfg). \<forall>c \<in> set (categories cfg). \<forall>c' \<in> set (categories cfg).
        q \<in> set (questions_for_category (questions cfg) c) \<and>
        q \<in> set (questions_for_category (questions cfg) c') \<longrightarrow> c = c')"

text \<open>
  A value \<open>q_id in updated_answers_map\<close> can be asked for: anything but a list or a dict.
\<close>

definition hashable :: "'n json \<Rightarrow> bool" where
  "hashable v = (case v of JArr _ \<Rightarrow> False | JObj _ \<Rightarrow> False | _ \<Rightarrow> True)"

definition hashable_ids :: "(string \<times> 'n json) list list \<Rightarrow> bool" where
  "hashable_ids corrections_list =
     list_all (\<lambda>correction. hashable (dict_get correction ''question_id'')) corrections_list"

text \<open>
  The record of key \<open>k\<close> after the loop over the corrections: every correction whose
  \<open>question_id\<close> is the string \<open>k\<close> rewrites it, in order.
\<close>

definition corrected_by ::
  "('n json \<Rightarrow> string) \<Rightarrow> (string \<times> 'n json) list list \<Rightarrow> string \<Rightarrow>
   'n answer_record \<Rightarrow> 'n answer_record" where
  "corrected_by repr corrections_list k ans =
     fold (\<lambda>correction a.
             if dict_get correction ''question_id'' = JStr k then correct_record repr correction a
             else a)
          corrections_list ans"

subsection \<open>Example environment\<close>

text \<open>
  A provider that has the given text for every product, a gateway that plays a script of
  replies (and returns \<open>None\<close> afterwards), a decoder, a stand-in for \<open>repr\<close>, and the
  questions of the product AlphaCare.
\<close>

definition fixed_provider :: "string \<Rightarrow> string \<Rightarrow> string option" where
  "fixed_provider md pname = Some md"

definition scripted_gateway :: "llm_reply list \<Rightarrow> nat \<Rightarrow> llm_reply" where
  "scripted_gateway replies n = (if n < length replies then replies ! n else Returns None)"

text \<open>
  A decoder given by a table of texts and outcomes; a text the table does not list is not
  JSON.
\<close>

definition table_loads ::
  "(string \<times> (py_error + 'n json)) list \<Rightarrow> string \<Rightarrow> py_error + 'n json" where
  "table_loads tbl s = (case map_of tbl s of None \<Rightarrow> Inl JSONDecodeError | Some outcome \<Rightarrow> outcome)"

definition no_repr :: "nat json \<Rightarrow> string" where
  "no_repr v = ''?''"

definition covered_question :: question where
  "covered_question =
     \<lparr>q_id = ''q001'', q_text = ''Is this category covered under the insurance?'',
      applies_to_categories = Some [''Dental'', ''Vision'']\<rparr>"

definition alpha_questions :: "question list" where
  "alpha_questions =
     [\<lparr>q_id = ''q1'', q_text = ''Is dental treatment covered?'',
       applies_to_categories = Some [''Dental'']\<rparr>,
      \<lparr>q_id = ''q2'', q_text = ''What is the waiting period?'',
       applies_to_categories = Some [''Dental'']\<rparr>,
      \<lparr>q_id = ''q3'', q_text = ''Are glasses covered?'',
       applies_to_categories = Some [''Vision'']\<rparr>]"

definition alpha_config :: questions_config where
  "alpha_config = \<lparr>categories = [''Dental'', ''Vision''], questions = alpha_questions\<rparr>"

text \<open>
  Answers and review suggestions for AlphaCare: the two records of a question that applies
  to two categories, two records of single-category questions, three suggestions (the
  second for an id no record has), and the records after the suggestions are applied.
\<close>

definition shared_answers :: "nat answer_record list" where
  "shared_answers =
     [\<lparr>question_id = ''q001'', question_text = ''Is this category covered under the insurance?'',
       answer = ''Covered'', category = ''Dental'', status = ''raw'', correction_reason = None\<rparr>,
      \<lparr>question_id = ''q001'', question_text = ''Is this category covered under the insurance?'',
       answer = ''Answer not found by LLM.'', category = ''Vision'', status = ''raw'',
       correction_reason = None\<rparr>]"

definition alpha_answers :: "nat answer_record list" where
  "alpha_answers =
     [\<lparr>question_id = ''q1'', question_text = ''Is dental treatment covered?'',
       answer = ''Yes'', category = ''Dental'', status = ''raw'', correction_reason = None\<rparr>,
      \<lparr>question_id = ''q2'', question_text = ''What is the waiting period?'',
       answer = ''6 months'', category = ''Dental'', status = ''raw'', correction_reason = None\<rparr>]"

definition alpha_corrections :: "(string \<times> nat json) list list" where
  "alpha_corrections =
     [[(''question_id'', JStr ''q1''), (''original_answer'', JStr ''Yes''),
       (''suggested_correction'', JStr ''No''), (''reason'', JStr ''Section 3.2'')],
      [(''question_id'', JStr ''q9''), (''original_answer'', JStr ''None''),
       (''suggested_correction'', JStr ''Worldwide''), (''reason'', JStr ''Section 7'')],
      [(''question_id'', JStr ''q1''), (''original_answer'', JStr ''Yes''),
       (''suggested_correction'', JStr ''Only above 100 EUR''), (''reason'', JStr ''Section 3.4'')]]"

definition alpha_corrected :: "nat answer_record list" where
  "alpha_corrected =
     [\<lparr>question_id = ''q1'', question_text = ''Is dental treatment covered?'',
       answer = ''Only above 100 EUR'', category = ''Dental'', status = ''corrected'',
       correction_reason = Some (JStr ''Section 3.4'')\<rparr>,
      \<lparr>question_id = ''q2'', question_text = ''What is the waiting period?'',
       answer = ''6 months'', category = ''Dental'', status = ''raw'', correction_reason = None\<rparr>]"

text \<open>A wider configuration: a category before Dental and one after it.\<close>

definition wide_config :: questions_config where
  "wide_config =
     \<lparr>categories = [''Accident'', ''Dental'', ''Vision''],
      questions = \<lparr>q_id = ''q0'', q_text = ''Are accidents covered?'',
                    applies_to_categories = Some [''Accident'']\<rparr> # alpha_questions\<rparr>"

section \<open>Auxiliary lemmas\<close>

lemmas run_simps =
  extract_answers_for_product_def category_answers_def questions_for_category_def
  MAX_LLM_RETRIES_def numeral_3_eq_3 decode_response_def clean_response_def py_strip_def
  py_isspace_def json_shaped_def startswith_def endswith_def fixed_provider_def
  scripted_gateway_def table_loads_def handled_def no_repr_def FENCE_CLOSE_def raw_record_def
  error_llm_record_def error_parsing_record_def dict_get_default_def py_str_def
  covered_question_def alpha_questions_def alpha_config_def

subsection \<open>The retrying caller\<close>

lemma retry_Some:
  "call_llm_with_retry gw k n = (Some r, n') \<Longrightarrow>
     r \<noteq> [] \<and> json_shaped (py_strip r) \<and> n < n' \<and> n' \<le> n + k"
  by (induction gw k n rule: call_llm_with_retry.induct)
     (fastforce split: llm_reply.splits option.splits if_splits)+

lemma retry_rejected:
  "(\<And>i. i < k \<Longrightarrow> \<not> accepted (gw (n + i))) \<Longrightarrow> call_llm_with_retry gw k n = (None, n + k)"
proof (induction k arbitrary: n)
  case 0
  then show ?case by simp
next
  case (Suc k)
  have "\<not> accepted (gw n)" using Suc.prems [of 0] by simp
  moreover have "call_llm_with_retry gw k (Suc n) = (None, Suc n + k)"
    using Suc.prems [of "Suc _"] by (intro Suc.IH) simp
  ultimately show ?case
    by (auto simp: accepted_def split: llm_reply.splits option.splits)
qed

lemma retry_mono: "call_llm_with_retry gw k n = (r, n') \<Longrightarrow> n \<le> n'"
proof (induction k arbitrary: n)
  case 0
  then show ?case by simp
next
  case (Suc k)
  show ?case
  proof (cases "accepted (gw n)")
    case True
    with Suc.prems show ?thesis
      by (auto simp: accepted_def split: llm_reply.splits option.splits)
  next
    case False
    with Suc.prems have "call_llm_with_retry gw k (Suc n) = (r, n')"
      by (auto simp: accepted_def split: llm_reply.splits option.splits if_splits)
    from Suc.IH [OF this] show ?thesis by simp
  qed
qed

text \<open>
  The caller consults the gateway on its own calls only: a gateway that gives the same
  replies to these calls, at whatever call numbers, leads to the same result.
\<close>

lemma retry_agree:
  "call_llm_with_retry gw k m = (r, m1) \<Longrightarrow>
   (\<And>i. i < m1 - m \<Longrightarrow> gw' (m' + i) = gw (m + i)) \<Longrightarrow>
   call_llm_with_retry gw' k m' = (r, m' + (m1 - m))"
proof (induction k arbitrary: m m')
  case 0
  then show ?case by simp
next
  case (Suc k)
  show ?case
  proof (cases "accepted (gw m)")
    case True
    then have res: "r = (case gw m of Returns x \<Rightarrow> x | _ \<Rightarrow> None)" "m1 = Suc m"
      using Suc.prems(1) by (auto simp: accepted_def split: llm_reply.splits option.splits)
    have "gw' m' = gw m" using Suc.prems(2) [of 0] res(2) by simp
    with True res show ?thesis
      by (auto simp: accepted_def split: llm_reply.splits option.splits)
  next
    case False
    with Suc.prems(1) have rec: "call_llm_with_retry gw k (Suc m) = (r, m1)"
      by (auto simp: accepted_def split: llm_reply.splits option.splits if_splits)
    have le: "Suc m \<le> m1" by (rule retry_mono [OF rec])
    have "gw' m' = gw m" using Suc.prems(2) [of 0] le by simp
    with False have rej': "\<not> accepted (gw' m')" by simp
    have "call_llm_with_retry gw' k (Suc m') = (r, Suc m' + (m1 - Suc m))"
    proof (rule Suc.IH [OF rec])
      fix i assume "i < m1 - Suc m"
      then show "gw' (Suc m' + i) = gw (Suc m + i)"
        using Suc.prems(2) [of "Suc i"] by simp
    qed
    moreover have "Suc m' + (m1 - Suc m) = m' + (m1 - m)" using le by simp
    ultimately show ?thesis
      using rej' by (auto simp: accepted_def split: llm_reply.splits option.splits)
  qed
qed

subsection \<open>The loop over the categories\<close>

lemma category_mono: "category_answers gw jl repr qs c n = (x, n') \<Longrightarrow> n \<le> n'"
  by (auto simp: category_answers_def dest: retry_mono
        split: if_splits prod.splits option.splits sum.splits json.splits)

lemma category_agree:
  assumes "category_answers gw jl repr qs c m = (x, m1)"
    and "\<And>i. i < m1 - m \<Longrightarrow> gw' (m' + i) = gw (m + i)"
  shows "category_answers gw' jl repr qs c m' = (x, m' + (m1 - m))"
proof (cases "questions_for_category qs c = []")
  case True
  with assms(1) show ?thesis by (auto simp: category_answers_def)
next
  case False
  obtain r k where call: "call_llm_with_retry gw MAX_LLM_RETRIES m = (r, k)"
    by (cases "call_llm_with_retry gw MAX_LLM_RETRIES m")
  have k: "k = m1"
    using assms(1) False call
    by (auto simp: category_answers_def split: if_splits option.splits sum.splits json.splits)
  have "call_llm_with_retry gw' MAX_LLM_RETRIES m' = (r, m' + (m1 - m))"
    using call assms(2) unfolding k by (rule retry_agree)
  with assms(1) False call show ?thesis
    by (auto simp: category_answers_def k
          split: option.splits if_splits sum.splits json.splits)
qed


lemma extract_mono: "extract_by_categories gw jl repr qs cats (acc, n) = (x, n') \<Longrightarrow> n \<le> n'"
proof (induction cats arbitrary: acc n)
  case Nil
  then show ?case by simp
next
  case (Cons c cats)
  obtain y k where ca: "category_answers gw jl repr qs c n = (y, k)"
    by (cases "category_answers gw jl repr qs c n")
  have nk: "n \<le> k" by (rule category_mono [OF ca])
  show ?case
  proof (cases y)
    case (Inl e)
    with Cons.prems ca nk show ?thesis by simp
  next
    case (Inr recs)
    with Cons.prems ca have "extract_by_categories gw jl repr qs cats (acc @ recs, k) = (x, n')"
      by simp
    from Cons.IH [OF this] nk show ?thesis by simp
  qed
qed

lemma extract_agree:
  "extract_by_categories gw jl repr qs cats (acc, m) = (x, m1) \<Longrightarrow>
   (\<And>i. i < m1 - m \<Longrightarrow> gw' (m' + i) = gw (m + i)) \<Longrightarrow>
   extract_by_categories gw' jl repr qs cats (acc, m') = (x, m' + (m1 - m))"
proof (induction cats arbitrary: acc m m')
  case Nil
  then show ?case by auto
next
  case (Cons c cats)
  obtain y k where ca: "category_answers gw jl repr qs c m = (y, k)"
    by (cases "category_answers gw jl repr qs c m")
  have mk: "m \<le> k" by (rule category_mono [OF ca])
  show ?case
  proof (cases y)
    case (Inl e)
    with Cons.prems(1) ca have x: "x = Inl e" "m1 = k" by simp_all
    have "category_answers gw' jl repr qs c m' = (y, m' + (k - m))"
      using ca Cons.prems(2) unfolding x by (rule category_agree)
    with Inl x show ?thesis by simp
  next
    case (Inr recs)
    with Cons.prems(1) ca
    have rest: "extract_by_categories gw jl repr qs cats (acc @ recs, k) = (x, m1)"
      by simp
    have km1: "k \<le> m1" by (rule extract_mono [OF rest])
    have ca': "category_answers gw' jl repr qs c m' = (y, m' + (k - m))"
    proof (rule category_agree [OF ca])
      fix i assume "i < k - m"
      with km1 have "i < m1 - m" by simp
      then show "gw' (m' + i) = gw (m + i)" by (rule Cons.prems(2))
    qed
    have "extract_by_categories gw' jl repr qs cats (acc @ recs, m' + (k - m))
            = (x, m' + (k - m) + (m1 - k))"
    proof (rule Cons.IH [OF rest])
      fix i assume "i < m1 - k"
      with mk km1 have "(k - m) + i < m1 - m" by simp
      from Cons.prems(2) [OF this] show "gw' (m' + (k - m) + i) = gw (k + i)"
        using mk by (simp add: add.assoc)
    qed
    moreover have "m' + (k - m) + (m1 - k) = m' + (m1 - m)" using mk km1 by simp
    ultimately show ?thesis using ca' Inr by simp
  qed
qed

lemma extract_acc:
  "extract_by_categories gw jl repr qs cats (acc, n) =
     (map_sum id (\<lambda>rs. acc @ rs) (fst (extract_by_categories gw jl repr qs cats ([], n))),
      snd (extract_by_categories gw jl repr qs cats ([], n)))"
proof (induction cats arbitrary: acc n)
  case Nil
  then show ?case by simp
next
  case (Cons c cats)
  obtain y k where ca: "category_answers gw jl repr qs c n = (y, k)"
    by (cases "category_answers gw jl repr qs c n")
  show ?case
  proof (cases y)
    case (Inl e)
    with ca show ?thesis by simp
  next
    case (Inr recs)
    obtain z k' where rest: "extract_by_categories gw jl repr qs cats ([], k) = (z, k')"
      by (cases "extract_by_categories gw jl repr qs cats ([], k)")
    show ?thesis
      using Cons.IH [of "acc @ recs" k] Cons.IH [of recs k] ca Inr rest
      by (cases z) simp_all
  qed
qed

lemma extract_append:
  "extract_by_categories gw jl repr qs (xs @ ys) (acc, n) =
     (case extract_by_categories gw jl repr qs xs (acc, n) of
        (Inl e, n') \<Rightarrow> (Inl e, n')
      | (Inr acc', n') \<Rightarrow> extract_by_categories gw jl repr qs ys (acc', n'))"
proof (induction xs arbitrary: acc n)
  case Nil
  then show ?case by simp
next
  case (Cons c xs)
  obtain y k where ca: "category_answers gw jl repr qs c n = (y, k)"
    by (cases "category_answers gw jl repr qs c n")
  show ?case
  proof (cases y)
    case (Inl e)
    with ca show ?thesis by simp
  next
    case (Inr recs)
    with ca Cons.IH [of "acc @ recs" k] show ?thesis by simp
  qed
qed

lemma extract_split:
  assumes pre: "extract_by_categories gw jl repr qs pre ([], n) = (Inr before, n1)"
    and cat: "category_answers gw jl repr qs cat n1 = (Inr recs, n2)"
  shows "extract_by_categories gw jl repr qs (pre @ cat # post) ([], n) =
           (map_sum id (\<lambda>rs. before @ recs @ rs)
              (fst (extract_by_categories gw jl repr qs post ([], n2))),
            snd (extract_by_categories gw jl repr qs post ([], n2)))"
proof -
  have "extract_by_categories gw jl repr qs (pre @ cat # post) ([], n) =
        extract_by_categories gw jl repr qs (cat # post) (before, n1)"
    by (simp add: extract_append pre)
  also have "\<dots> = extract_by_categories gw jl repr qs post (before @ recs, n2)"
    by (simp add: cat)
  also have "\<dots> = (map_sum id (\<lambda>rs. (before @ recs) @ rs)
              (fst (extract_by_categories gw jl repr qs post ([], n2))),
            snd (extract_by_categories gw jl repr qs post ([], n2)))"
    by (rule extract_acc)
  finally show ?thesis by simp
qed

lemma extract_split_raises:
  assumes pre: "extract_by_categories gw jl repr qs pre ([], n) = (Inr before, n1)"
    and cat: "category_answers gw jl repr qs cat n1 = (Inl e, n2)"
  shows "extract_by_categories gw jl repr qs (pre @ cat # post) ([], n) = (Inl e, n2)"
  by (simp add: extract_append pre cat)

lemma category_answers_keys:
  "category_answers gw jl repr qs c n = (Inr recs, n') \<Longrightarrow>
     map (\<lambda>a. (question_id a, category a)) recs =
       map (\<lambda>q. (q_id q, c)) (questions_for_category qs c)"
  by (auto simp: category_answers_def error_llm_record_def raw_record_def error_parsing_record_def
        comp_def split: if_splits prod.splits option.splits sum.splits json.splits)

lemma extract_keys:
  "fst (extract_by_categories gw jl repr qs cats ([], n)) = Inr rs \<Longrightarrow>
     map (\<lambda>a. (question_id a, category a)) rs =
       concat (map (\<lambda>c. map (\<lambda>q. (q_id q, c)) (questions_for_category qs c)) cats)"
proof (induction cats arbitrary: n rs)
  case Nil
  then show ?case by simp
next
  case (Cons c cats)
  obtain y k where ca: "category_answers gw jl repr qs c n = (y, k)"
    by (cases "category_answers gw jl repr qs c n")
  show ?case
  proof (cases y)
    case (Inl e)
    with ca Cons.prems show ?thesis by simp
  next
    case (Inr recs)
    have "fst (extract_by_categories gw jl repr qs cats (recs, k)) = Inr rs"
      using Cons.prems ca Inr by simp
    then have "map_sum id (\<lambda>rs. recs @ rs)
                 (fst (extract_by_categories gw jl repr qs cats ([], k))) = Inr rs"
      using extract_acc [of gw jl repr qs cats recs k] by simp
    then obtain rs' where z: "fst (extract_by_categories gw jl repr qs cats ([], k)) = Inr rs'"
      and rs: "rs = recs @ rs'"
      by (cases "fst (extract_by_categories gw jl repr qs cats ([], k))") auto
    have 1: "map (\<lambda>a. (question_id a, category a)) recs =
             map (\<lambda>q. (q_id q, c)) (questions_for_category qs c)"
      using ca Inr by (intro category_answers_keys) simp
    have 2: "map (\<lambda>a. (question_id a, category a)) rs' =
             concat (map (\<lambda>c. map (\<lambda>q. (q_id q, c)) (questions_for_category qs c)) cats)"
      by (rule Cons.IH [OF z])
    from 1 2 rs show ?thesis by simp
  qed
qed


lemma qfc_set:
  "q \<in> set (questions_for_category qs c) \<longleftrightarrow>
     q \<in> set qs \<and> c \<in> set (case applies_to_categories q of None \<Rightarrow> [] | Some cs \<Rightarrow> cs)"
  by (auto simp: questions_for_category_def)

lemma qfc_distinct_ids:
  "distinct (map q_id qs) \<Longrightarrow> distinct (map q_id (questions_for_category qs c))"
  by (simp add: questions_for_category_def distinct_map_filter)


lemma pairs_distinct:
  assumes "distinct cats" and "distinct (map q_id qs)"
  shows "distinct (concat (map (\<lambda>c. map (\<lambda>q. (q_id q, c)) (questions_for_category qs c)) cats))"
  using assms(1)
proof (induction cats)
  case Nil
  then show ?case by simp
next
  case (Cons c cats)
  let ?f = "\<lambda>c. map (\<lambda>q. (q_id q, c)) (questions_for_category qs c)"
  have 1: "distinct (?f c)"
    using qfc_distinct_ids [OF assms(2), of c]
    by (simp add: distinct_map inj_on_def)
  have 2: "distinct (concat (map ?f cats))"
    using Cons by simp
  have 3: "snd ` set (?f c) \<subseteq> {c}" by auto
  have 4: "snd ` set (concat (map ?f cats)) \<subseteq> set cats" by auto
  have "c \<notin> set cats" using Cons.prems by simp
  with 3 4 have 5: "set (?f c) \<inter> set (concat (map ?f cats)) = {}"
    by (metis (no_types, lifting) disjoint_iff image_eqI singletonD subsetD)
  from 1 2 5 show ?case by simp
qed


lemma ids_distinct:
  assumes "distinct cats" and "distinct (map q_id qs)"
    and single: "\<And>q c c'. q \<in> set qs \<Longrightarrow> c \<in> set cats \<Longrightarrow> c' \<in> set cats \<Longrightarrow>
           q \<in> set (questions_for_category qs c) \<Longrightarrow>
           q \<in> set (questions_for_category qs c') \<Longrightarrow> c = c'"
  shows "distinct (concat (map (\<lambda>c. map q_id (questions_for_category qs c)) cats))"
  using assms(1) single
proof (induction cats)
  case Nil
  then show ?case by simp
next
  case (Cons c cats)
  let ?f = "\<lambda>c. map q_id (questions_for_category qs c)"
  have inj: "inj_on q_id (set qs)"
    using assms(2) by (simp add: distinct_map)
  have d: "distinct (?f c)"
    by (rule qfc_distinct_ids [OF assms(2)])
  have ih: "distinct (concat (map ?f cats))"
  proof (rule Cons.IH)
    show "distinct cats" using Cons.prems(1) by simp
  next
    fix q c1 c2
    assume "q \<in> set qs" "c1 \<in> set cats" "c2 \<in> set cats"
      "q \<in> set (questions_for_category qs c1)" "q \<in> set (questions_for_category qs c2)"
    then show "c1 = c2" using Cons.prems(2) [of q c1 c2] by simp
  qed
  have disj: "set (?f c) \<inter> set (concat (map ?f cats)) = {}"
  proof (rule ccontr)
    assume "set (?f c) \<inter> set (concat (map ?f cats)) \<noteq> {}"
    then obtain k where k1: "k \<in> set (?f c)" and k2: "k \<in> set (concat (map ?f cats))"
      by blast
    from k1 obtain q where q: "q \<in> set (questions_for_category qs c)" "k = q_id q"
      by auto
    from k2 obtain c' q' where q': "c' \<in> set cats" "q' \<in> set (questions_for_category qs c')" "k = q_id q'"
      by auto
    have "q \<in> set qs" "q' \<in> set qs" using q q' by (simp_all add: qfc_set)
    with inj q(2) q'(3) have "q = q'" by (simp add: inj_on_def)
    with q q' \<open>q \<in> set qs\<close> have "c = c'"
      using Cons.prems(2) [of q c c'] by simp
    with q'(1) Cons.prems(1) show False by simp
  qed
  from d ih disj show ?case by simp
qed



lemma extract_result_cases:
  assumes "extract_answers_for_product provider gw jl repr pn cfg by_cat n = (Inr (Some res), n')"
  shows "answers res = [] \<or>
         fst (extract_by_categories gw jl repr (questions cfg) (categories cfg) ([], n))
           = Inr (answers res) \<or>
         answers res = map not_implemented_record (questions cfg)"
proof (cases "provider pn")
  case None
  with assms show ?thesis by (simp add: extract_answers_for_product_def)
next
  case (Some md)
  with assms show ?thesis
    by (auto simp: extract_answers_for_product_def split: if_splits prod.splits sum.splits)
qed

lemma extract_ids:
  assumes "fst (extract_by_categories gw jl repr qs cats ([], n)) = Inr rs"
  shows "map question_id rs = concat (map (\<lambda>c. map q_id (questions_for_category qs c)) cats)"
proof -
  have "map question_id rs = map fst (map (\<lambda>a. (question_id a, category a)) rs)"
    by (simp add: comp_def)
  also have "\<dots> = map fst (concat (map (\<lambda>c. map (\<lambda>q. (q_id q, c)) (questions_for_category qs c)) cats))"
    by (simp only: extract_keys [OF assms])
  also have "\<dots> = concat (map (\<lambda>c. map q_id (questions_for_category qs c)) cats)"
    by (simp add: map_concat comp_def)
  finally show ?thesis .
qed

lemma extract_by_category_run:
  assumes "provider pname = Some md" and "md \<noteq> []"
    and "categories cfg \<noteq> []" and "questions cfg \<noteq> []"
  shows "extract_answers_for_product provider gw jl repr pname cfg True n =
           (map_sum id (\<lambda>all_answers. Some \<lparr>product_name = pname, answers = all_answers\<rparr>)
              (fst (extract_by_categories gw jl repr (questions cfg) (categories cfg) ([], n))),
            snd (extract_by_categories gw jl repr (questions cfg) (categories cfg) ([], n)))"
  using assms
  by (simp add: extract_answers_for_product_def split: prod.splits sum.splits)

lemma category_answers_rejected:
  assumes "questions_for_category qs cat \<noteq> []"
    and "\<And>i. i < MAX_LLM_RETRIES \<Longrightarrow> \<not> accepted (gw (n + i))"
  shows "category_answers gw jl repr qs cat n =
           (Inr (map (error_llm_record cat) (questions_for_category qs cat)), n + MAX_LLM_RETRIES)"
  using assms(1) retry_rejected [of MAX_LLM_RETRIES gw n, OF assms(2)]
  by (simp add: category_answers_def)

lemma category_answers_object:
  assumes "questions_for_category qs cat \<noteq> []"
    and "call_llm_with_retry gw MAX_LLM_RETRIES n = (Some response_str, n')"
    and "decode_response jl response_str = Inr (JObj answers_json)"
  shows "category_answers gw jl repr qs cat n =
           (Inr (map (raw_record repr answers_json cat) (questions_for_category qs cat)), n')"
proof -
  have "response_str \<noteq> []" using retry_Some [OF assms(2)] by simp
  with assms show ?thesis by (simp add: category_answers_def)
qed

text \<open>An exception of the decoder that the handler does not catch leaves the loop body.\<close>

lemma category_answers_raises:
  assumes "questions_for_category qs cat \<noteq> []"
    and "call_llm_with_retry gw MAX_LLM_RETRIES n = (Some response_str, n')"
    and "decode_response jl response_str = Inl e" and "\<not> handled e"
  shows "category_answers gw jl repr qs cat n = (Inl e, n')"
proof -
  have "response_str \<noteq> []" using retry_Some [OF assms(2)] by simp
  with assms show ?thesis by (simp add: category_answers_def)
qed

lemma qfc_nonempty_questions: "questions_for_category qs cat \<noteq> [] \<Longrightarrow> qs \<noteq> []"
  by (auto simp: questions_for_category_def)



text \<open>
  An exception of the decoder that the handler does not catch ends the whole run: the
  records of the categories before it are not returned.
\<close>

lemma extract_uncaught_exception:
  assumes doc: "provider pname = Some md" "md \<noteq> []"
    and cats: "categories cfg = pre @ cat # post"
    and sel: "questions_for_category (questions cfg) cat \<noteq> []"
    and pre: "extract_by_categories gw jl repr (questions cfg) pre ([], n) = (Inr before, n1)"
    and call: "call_llm_with_retry gw MAX_LLM_RETRIES n1 = (Some response_str, n2)"
    and raises: "decode_response jl response_str = Inl e" "\<not> handled e"
  shows "extract_answers_for_product provider gw jl repr pname cfg True n = (Inl e, n2)"
proof -
  have ca: "category_answers gw jl repr (questions cfg) cat n1 = (Inl e, n2)"
    using sel call raises by (rule category_answers_raises)
  have loop: "extract_by_categories gw jl repr (questions cfg) (categories cfg) ([], n) = (Inl e, n2)"
    unfolding cats by (rule extract_split_raises [OF pre ca])
  have ne: "categories cfg \<noteq> []" "questions cfg \<noteq> []"
    using cats qfc_nonempty_questions [OF sel] by simp_all
  show ?thesis
    using doc ne by (simp add: extract_by_category_run loop)
qed


lemma scripted_shift:
  "scripted_gateway (a # replies) (Suc i) = scripted_gateway replies i"
  by (simp add: scripted_gateway_def)

subsection \<open>Evaluating the correction functions\<close>

lemmas apply_simps =
  apply_corrections_def answers_map_def key_in_map_def dict_get_def dict_get_default_def
  correct_record_def py_str_def hashable_ids_def hashable_def no_repr_def
  shared_answers_def alpha_answers_def alpha_corrections_def alpha_corrected_def

subsection \<open>Building the map of the answers\<close>

lemma update_absent: "k \<notin> fst ` set al \<Longrightarrow> AList.update k v al = al @ [(k, v)]"
  by (induction al) auto

lemma update_present:
  "distinct (map fst al) \<Longrightarrow> k \<in> fst ` set al \<Longrightarrow>
     AList.update k v al = map (\<lambda>(k', a). (k', if k' = k then v else a)) al"
proof (induction al)
  case Nil
  then show ?case by simp
next
  case (Cons p al)
  show ?case
  proof (cases "fst p = k")
    case True
    then have "k \<notin> fst ` set al" using Cons.prems(1) by auto
    then have "map (\<lambda>(k', a). (k', if k' = k then v else a)) al = al"
      by (induction al) auto
    with True show ?thesis by (cases p) simp
  next
    case False
    with Cons show ?thesis by (cases p) auto
  qed
qed

lemma fold_update_keys:
  "fst ` set (fold (\<lambda>ans m. AList.update (question_id ans) ans m) xs m) =
     fst ` set m \<union> question_id ` set xs"
  by (induction xs arbitrary: m) (auto simp: dom_update)

lemma fold_update_distinct:
  "distinct (map fst m) \<Longrightarrow>
     distinct (map fst (fold (\<lambda>ans m. AList.update (question_id ans) ans m) xs m))"
  by (induction xs arbitrary: m) (simp_all add: distinct_update)

lemma update_entries:
  "(k', v') \<in> set (AList.update k v al) \<Longrightarrow> (k', v') \<in> set al \<or> (k', v') = (k, v)"
  by (induction al) (auto split: if_splits)

lemma fold_update_keyed:
  "(\<And>k a. (k, a) \<in> set m \<Longrightarrow> question_id a = k) \<Longrightarrow>
   (k, a) \<in> set (fold (\<lambda>ans m. AList.update (question_id ans) ans m) xs m) \<Longrightarrow>
   question_id a = k"
proof (induction xs arbitrary: m)
  case Nil
  then show ?case by simp
next
  case (Cons x xs)
  show ?case
  proof (rule Cons.IH [of "AList.update (question_id x) x m"])
    fix k' a'
    assume "(k', a') \<in> set (AList.update (question_id x) x m)"
    then show "question_id a' = k'"
      using update_entries [of k' a' "question_id x" x m] Cons.prems(1) by auto
  next
    show "(k, a) \<in> set (fold (\<lambda>ans m. AList.update (question_id ans) ans m) xs
                          (AList.update (question_id x) x m))"
      using Cons.prems(2) by simp
  qed
qed

lemma fold_update_fresh:
  "distinct (map fst m @ map question_id xs) \<Longrightarrow>
     fold (\<lambda>ans m. AList.update (question_id ans) ans m) xs m =
       m @ map (\<lambda>a. (question_id a, a)) xs"
proof (induction xs arbitrary: m)
  case Nil
  then show ?case by simp
next
  case (Cons x xs)
  have fresh: "question_id x \<notin> fst ` set m" using Cons.prems by auto
  have "distinct (map fst (m @ [(question_id x, x)]) @ map question_id xs)"
    using Cons.prems by auto
  from Cons.IH [OF this] show ?case
    by (simp add: update_absent [OF fresh])
qed

lemma answers_map_keys: "fst ` set (answers_map xs) = question_id ` set xs"
  by (simp add: answers_map_def fold_update_keys)

lemma answers_map_distinct: "distinct (map fst (answers_map xs))"
  by (simp add: answers_map_def fold_update_distinct)

lemma answers_map_keyed: "(k, a) \<in> set (answers_map xs) \<Longrightarrow> question_id a = k"
  unfolding answers_map_def by (rule fold_update_keyed [of "[]"]) simp_all

lemma answers_map_fresh:
  "distinct (map question_id xs) \<Longrightarrow> answers_map xs = map (\<lambda>a. (question_id a, a)) xs"
  using fold_update_fresh [of "[]" xs] by (simp add: answers_map_def)


subsection \<open>The loop over the corrections\<close>

lemma corrected_by_Nil: "corrected_by repr [] k a = a"
  by (simp add: corrected_by_def)

lemma corrected_by_Cons:
  "corrected_by repr (c # cs) k a =
     corrected_by repr cs k
       (if dict_get c ''question_id'' = JStr k then correct_record repr c a else a)"
  by (simp add: corrected_by_def)

lemma correct_record_absorb:
  "correct_record repr c (correct_record repr d a) = correct_record repr c a"
  by (simp add: correct_record_def)

lemma correct_record_id: "question_id (correct_record repr c a) = question_id a"
  by (simp add: correct_record_def)

lemma corrected_by_cases:
  "(\<forall>a. corrected_by repr cs k a = a) \<or>
   (\<exists>c. \<forall>a. corrected_by repr cs k a = correct_record repr c a)"
proof (induction cs)
  case Nil
  then show ?case by (simp add: corrected_by_Nil)
next
  case (Cons d cs)
  show ?case
  proof (cases "dict_get d ''question_id'' = JStr k")
    case False
    with Cons show ?thesis by (simp add: corrected_by_Cons)
  next
    case True
    from Cons show ?thesis
    proof
      assume "\<forall>a. corrected_by repr cs k a = a"
      with True have "\<forall>a. corrected_by repr (d # cs) k a = correct_record repr d a"
        by (simp add: corrected_by_Cons)
      then show ?thesis by blast
    next
      assume "\<exists>c. \<forall>a. corrected_by repr cs k a = correct_record repr c a"
      then obtain c where "\<forall>a. corrected_by repr cs k a = correct_record repr c a" ..
      with True have "\<forall>a. corrected_by repr (d # cs) k a = correct_record repr c a"
        by (simp add: corrected_by_Cons correct_record_absorb)
      then show ?thesis by blast
    qed
  qed
qed

lemma corrected_by_idem:
  "corrected_by repr cs k (corrected_by repr cs k a) = corrected_by repr cs k a"
  using corrected_by_cases [of repr cs k] by (auto simp: correct_record_absorb)

lemma corrected_by_id: "question_id (corrected_by repr cs k a) = question_id a"
  using corrected_by_cases [of repr cs k] by (auto simp: correct_record_id)

lemma apply_loop_char:
  "distinct (map fst m) \<Longrightarrow> hashable_ids cs \<Longrightarrow>
     apply_loop repr cs m = Inr (map (\<lambda>(k, a). (k, corrected_by repr cs k a)) m)"
proof (induction cs arbitrary: m)
  case Nil
  then show ?case by (simp add: corrected_by_Nil)
next
  case (Cons c cs)
  have h: "hashable (dict_get c ''question_id'')" and hs: "hashable_ids cs"
    using Cons.prems(2) by (simp_all add: hashable_ids_def)
  show ?case
  proof (cases "\<exists>k. dict_get c ''question_id'' = JStr k \<and> k \<in> fst ` set m")
    case True
    then obtain k where k: "dict_get c ''question_id'' = JStr k" "k \<in> fst ` set m" by blast
    then obtain a where a: "map_of m k = Some a"
      by (metis domD dom_map_of_conv_image_fst)
    let ?m' = "AList.update k (correct_record repr c a) m"
    have d': "distinct (map fst ?m')" using Cons.prems(1) by (rule distinct_update)
    have step: "apply_loop repr (c # cs) m = apply_loop repr cs ?m'"
      using k a by (simp add: key_in_map_def)
    have m': "?m' = map (\<lambda>(k', b). (k', if k' = k then correct_record repr c a else b)) m"
      using Cons.prems(1) k(2) by (rule update_present)
    have "map (\<lambda>(k', b). (k', corrected_by repr cs k' b)) ?m' =
          map (\<lambda>(k', b). (k', corrected_by repr (c # cs) k' b)) m"
      unfolding m' map_map
    proof (rule map_cong [OF refl])
      fix p assume p: "p \<in> set m"
      obtain k' b where [simp]: "p = (k', b)" by (cases p)
      have "b = a" if "k' = k"
        using that p Cons.prems(1) a by simp
      then show "((\<lambda>(k', b). (k', corrected_by repr cs k' b)) \<circ>
                 (\<lambda>(k', b). (k', if k' = k then correct_record repr c a else b))) p =
                (case p of (k', b) \<Rightarrow> (k', corrected_by repr (c # cs) k' b))"
        using k(1) by (auto simp: corrected_by_Cons)
    qed
    with Cons.IH [OF d' hs] step show ?thesis by simp
  next
    case False
    have step: "apply_loop repr (c # cs) m = apply_loop repr cs m"
      using False h by (auto simp: key_in_map_def hashable_def split: json.splits)
    have "map (\<lambda>(k', b). (k', corrected_by repr cs k' b)) m =
          map (\<lambda>(k', b). (k', corrected_by repr (c # cs) k' b)) m"
    proof (rule map_cong [OF refl])
      fix p assume p: "p \<in> set m"
      obtain k' b where [simp]: "p = (k', b)" by (cases p)
      have "dict_get c ''question_id'' \<noteq> JStr k'"
        using False p by force
      then show "(case p of (k', b) \<Rightarrow> (k', corrected_by repr cs k' b)) =
                 (case p of (k', b) \<Rightarrow> (k', corrected_by repr (c # cs) k' b))"
        by (simp add: corrected_by_Cons)
    qed
    with Cons.IH [OF Cons.prems(1) hs] step show ?thesis by simp
  qed
qed

lemma apply_loop_unhashable:
  "\<not> hashable_ids cs \<Longrightarrow> apply_loop repr cs m \<noteq> Inr m'"
proof (induction cs arbitrary: m)
  case Nil
  then show ?case by (simp add: hashable_ids_def)
next
  case (Cons c cs)
  show ?case
  proof (cases "hashable (dict_get c ''question_id'')")
    case False
    then show ?thesis
      by (auto simp: key_in_map_def hashable_def split: json.splits)
  next
    case True
    with Cons.prems have "\<not> hashable_ids cs" by (simp add: hashable_ids_def)
    then show ?thesis
      using Cons.IH
      by (auto simp: key_in_map_def split: json.splits sum.splits bool.splits option.splits)
  qed
qed


lemma apply_corrections_char:
  assumes "hashable_ids cs"
  shows "apply_corrections repr original cs pname =
           Inr (map (\<lambda>a. corrected_by repr cs (question_id a) a) (map snd (answers_map original)))"
proof -
  have "map snd (map (\<lambda>(k, a). (k, corrected_by repr cs k a)) (answers_map original)) =
        map (\<lambda>a. corrected_by repr cs (question_id a) a) (map snd (answers_map original))"
    unfolding map_map
  proof (rule map_cong [OF refl])
    fix p assume p: "p \<in> set (answers_map original)"
    obtain k a where [simp]: "p = (k, a)" by (cases p)
    have "question_id a = k" using p answers_map_keyed [of k a original] by simp
    then show "(snd \<circ> (\<lambda>(k, a). (k, corrected_by repr cs k a))) p =
               ((\<lambda>a. corrected_by repr cs (question_id a) a) \<circ> snd) p"
      by simp
  qed
  then show ?thesis
    by (simp add: apply_corrections_def apply_loop_char [OF answers_map_distinct assms])
qed

lemma apply_corrections_Inr_iff:
  "(\<exists>r. apply_corrections repr original cs pname = Inr r) \<longleftrightarrow> hashable_ids cs"
proof
  assume "\<exists>r. apply_corrections repr original cs pname = Inr r"
  then show "hashable_ids cs"
    using apply_loop_unhashable [of cs repr "answers_map original"]
    by (auto simp: apply_corrections_def split: sum.splits)
next
  assume "hashable_ids cs"
  then show "\<exists>r. apply_corrections repr original cs pname = Inr r"
    by (simp add: apply_corrections_char)
qed

lemma base_ids:
  "set (map question_id (map snd (answers_map original))) = set (map question_id original)"
proof -
  have "map question_id (map snd (answers_map original)) = map fst (answers_map original)"
    unfolding map_map
    by (rule map_cong [OF refl]) (auto dest: answers_map_keyed)
  then have "set (map question_id (map snd (answers_map original))) = set (map fst (answers_map original))"
    by (rule arg_cong)
  also have "\<dots> = fst ` set (answers_map original)" by simp
  also have "\<dots> = question_id ` set original" by (rule answers_map_keys)
  also have "\<dots> = set (map question_id original)" by simp
  finally show ?thesis .
qed

lemma base_distinct: "distinct (map question_id (map snd (answers_map original)))"
proof -
  have "map question_id (map snd (answers_map original)) = map fst (answers_map original)"
    unfolding map_map
    by (rule map_cong [OF refl]) (auto dest: answers_map_keyed)
  then show ?thesis by (simp add: answers_map_distinct del: map_map)
qed

lemma base_of_distinct:
  "distinct (map question_id xs) \<Longrightarrow> map snd (answers_map xs) = xs"
  by (simp add: answers_map_fresh comp_def)

lemma apply_corrections_empty_distinct:
  "distinct (map question_id original) \<Longrightarrow> apply_corrections repr original [] pname = Inr original"
  by (simp add: apply_corrections_def base_of_distinct)

lemma corrected_by_skip:
  "dict_get c ''question_id'' \<noteq> JStr k \<Longrightarrow>
     corrected_by repr (cs1 @ c # cs2) k a = corrected_by repr (cs1 @ cs2) k a"
  by (simp add: corrected_by_def)

subsection \<open>Validating a review\<close>

lemma review_corrections_object:
  "review_corrections (Inr (JObj d)) =
     (case map_of d ''corrections'' of
        Some (JArr corrections_list) \<Rightarrow> Inr (Some (valid_corrections corrections_list))
      | _ \<Rightarrow> Inr None)"
proof (cases "map_of d ''corrections''")
  case None
  then have "''corrections'' \<notin> fst ` set d"
    by (simp add: map_of_eq_None_iff)
  with None show ?thesis
    by (simp add: review_corrections_def py_contains_def)
next
  case (Some v)
  then have "''corrections'' \<in> fst ` set d"
    by (metis domI dom_map_of_conv_image_fst)
  with Some show ?thesis
    by (simp add: review_corrections_def py_contains_def py_getitem_def split: json.splits)
qed

lemma valid_corrections_filter:
  "map JObj (valid_corrections items) =
     filter (\<lambda>item. case item of
                      JObj d \<Rightarrow> set REQUIRED_FIELDS \<subseteq> fst ` set d
                    | _ \<Rightarrow> False) items"
  by (induction items) (auto split: json.splits)

lemma review_corrections_array:
  "review_corrections (Inr (JArr xs)) =
     (if JStr ''corrections'' \<in> set xs then Inl TypeError else Inr None)"
  by (simp add: review_corrections_def py_contains_def py_getitem_def)

lemma review_corrections_undecodable:
  "review_corrections (Inl e) = (if handled e then Inr None else Inl e)"
  by (simp add: review_corrections_def)

section \<open>Properties\<close>

subsection \<open>One record per question and category\<close>

text \<open>
  C1, as stated, fails: a question that applies to two configured categories is answered
  once for each of them, and the two records carry the same \<open>question_id\<close>.
\<close>

theorem extract_answers_duplicate_id_counterexample:
  \<open>extract_answers_for_product (fixed_provider ''# Policy'')
     (scripted_gateway [Returns (Some ''{"q001": "Covered"}''), Returns (Some ''{}'')])
     (table_loads [(''{"q001": "Covered"}'', Inr (JObj [(''q001'', JStr ''Covered'')])),
                   (''{}'', Inr (JObj []))])
     no_repr ''AlphaCare''
     \<lparr>categories = [''Dental'', ''Vision''], questions = [covered_question]\<rparr> True 0
   = (Inr (Some \<lparr>product_name = ''AlphaCare'', answers = shared_answers\<rparr>), 2) \<and>
   map question_id shared_answers = [''q001'', ''q001''] \<and>
   \<not> distinct (map question_id shared_answers)\<close>
  by (simp add: run_simps shared_answers_def)

text \<open>
  C1, amended. With unique question ids and unique configured categories, the answers of
  an extraction hold at most one record per pair of \<open>question_id\<close> and \<open>category\<close>; they
  hold at most one record per \<open>question_id\<close> when no question is selected for more than
  one configured category.
\<close>

theorem extract_answers_pairwise_distinct:
  assumes cats: "distinct (categories cfg)" and ids: "distinct (map q_id (questions cfg))"
    and run: "extract_answers_for_product provider gw jl repr pn cfg by_cat n = (Inr (Some res), n')"
  shows "distinct (map (\<lambda>a. (question_id a, category a)) (answers res)) \<and>
         (single_category cfg \<longrightarrow> distinct (map question_id (answers res)))"
proof -
  from extract_result_cases [OF run] consider
      (empty) "answers res = []"
    | (by_cat) "fst (extract_by_categories gw jl repr (questions cfg) (categories cfg) ([], n))
                  = Inr (answers res)"
    | (batch) "answers res = map not_implemented_record (questions cfg)"
    by blast
  then show ?thesis
  proof cases
    case empty
    then show ?thesis by simp
  next
    case by_cat
    have 1: "distinct (map (\<lambda>a. (question_id a, category a)) (answers res))"
      unfolding extract_keys [OF by_cat] by (rule pairs_distinct [OF cats ids])
    have 2: "distinct (map question_id (answers res))" if "single_category cfg"
      unfolding extract_ids [OF by_cat]
    proof (rule ids_distinct [OF cats ids])
      fix q c c'
      assume "q \<in> set (questions cfg)" "c \<in> set (categories cfg)" "c' \<in> set (categories cfg)"
        "q \<in> set (questions_for_category (questions cfg) c)"
        "q \<in> set (questions_for_category (questions cfg) c')"
      with that show "c = c'" unfolding single_category_def by blast
    qed
    from 1 2 show ?thesis by blast
  next
    case batch
    have m: "map question_id (answers res) = map q_id (questions cfg)"
      by (simp add: batch not_implemented_record_def comp_def)
    have 2: "distinct (map question_id (answers res))"
      using ids by (simp only: m)
    have "distinct (map fst (map (\<lambda>a. (question_id a, category a)) (answers res)))"
      using 2 by (simp add: comp_def)
    then have 1: "distinct (map (\<lambda>a. (question_id a, category a)) (answers res))"
      using distinct_map by blast
    from 1 2 show ?thesis by blast
  qed
qed

theorem extract_answers_pairwise_distinct_witness:
  "distinct (categories alpha_config) \<and> distinct (map q_id (questions alpha_config)) \<and>
   single_category alpha_config \<and>
   extract_answers_for_product (fixed_provider ''# Policy'')
     (scripted_gateway [Returns (Some ''{}''), Returns (Some ''{}'')])
     (table_loads [(''{}'', Inr (JObj []))]) no_repr ''AlphaCare'' alpha_config True 0
   = (Inr (Some \<lparr>product_name = ''AlphaCare'',
         answers = [raw_record no_repr [] ''Dental'' (alpha_questions ! 0),
                    raw_record no_repr [] ''Dental'' (alpha_questions ! 1),
                    raw_record no_repr [] ''Vision'' (alpha_questions ! 2)]\<rparr>), 2) \<and>
   distinct (map question_id
     [raw_record no_repr [] ''Dental'' (alpha_questions ! 0),
      raw_record no_repr [] ''Dental'' (alpha_questions ! 1),
      raw_record no_repr [] ''Vision'' (alpha_questions ! 2)])"
proof -
  have cats: "distinct (categories alpha_config)"
    by (simp add: alpha_config_def)
  have ids: "distinct (map q_id (questions alpha_config))"
    by (simp add: alpha_config_def alpha_questions_def)
  have single: "single_category alpha_config"
    by (simp add: single_category_def alpha_config_def alpha_questions_def
          questions_for_category_def)
  have run: "extract_answers_for_product (fixed_provider ''# Policy'')
     (scripted_gateway [Returns (Some ''{}''), Returns (Some ''{}'')])
     (table_loads [(''{}'', Inr (JObj []))]) no_repr ''AlphaCare'' alpha_config True 0
   = (Inr (Some \<lparr>product_name = ''AlphaCare'',
         answers = [raw_record no_repr [] ''Dental'' (alpha_questions ! 0),
                    raw_record no_repr [] ''Dental'' (alpha_questions ! 1),
                    raw_record no_repr [] ''Vision'' (alpha_questions ! 2)]\<rparr>), 2)"
    by (simp add: run_simps)
  from extract_answers_pairwise_distinct [OF cats ids run] single cats ids run
  show ?thesis by simp
qed

subsection \<open>Extraction without a document\<close>

text \<open>
  C5. When the provider has no text for the product (\<open>None\<close>, or an empty text), the
  extraction returns \<open>None\<close>, so no answer record, and the number of gateway calls is the
  one it started with: no call is issued, whatever the gateway would reply.
\<close>

theorem extract_without_document:
  "provider pname = None \<or> provider pname = Some [] \<Longrightarrow>
     extract_answers_for_product provider gw json_loads repr pname cfg by_cat n = (Inr None, n)"
  by (auto simp: extract_answers_for_product_def)

theorem extract_without_document_witness:
  "extract_answers_for_product Map.empty (scripted_gateway [Returns (Some ''{}'')])
     (table_loads [(''{}'', Inr (JObj []))]) no_repr ''AlphaCare'' alpha_config True 0
     = (Inr None, 0)"
proof -
  have "Map.empty ''AlphaCare'' = (None :: string option) \<or> Map.empty ''AlphaCare'' = Some []"
    by simp
  from extract_without_document [OF this] show ?thesis .
qed

subsection \<open>A category whose reply decodes to an object\<close>

text \<open>
  C6. In a run by categories, let \<open>cat\<close> be a configured category with at least one
  question, reached at call number \<open>n1\<close> after the categories \<open>pre\<close> have produced the
  records \<open>before\<close>, and let its call return an accepted response that decodes to a JSON
  object. Then the loop body for \<open>cat\<close> raises nothing and appends one record per question,
  each with status \<open>raw\<close>; the answer is the string mapped to the question id, the
  fallback \<open>Answer not found by LLM.\<close> when the id is absent, and \<open>str\<close> of the value when
  it is not a string. The run returns these records between those of the categories before
  and after \<open>cat\<close>; it raises only if the run over the categories \<open>post\<close> raises.
\<close>

theorem extract_accepted_object:
  assumes doc: "provider pname = Some md" "md \<noteq> []"
    and cats: "categories cfg = pre @ cat # post"
    and sel: "questions_for_category (questions cfg) cat \<noteq> []"
    and pre: "extract_by_categories gw jl repr (questions cfg) pre ([], n) = (Inr before, n1)"
    and call: "call_llm_with_retry gw MAX_LLM_RETRIES n1 = (Some response_str, n2)"
    and obj: "decode_response jl response_str = Inr (JObj answers_json)"
  shows "category_answers gw jl repr (questions cfg) cat n1 =
           (Inr (map (raw_record repr answers_json cat)
                     (questions_for_category (questions cfg) cat)), n2) \<and>
         extract_answers_for_product provider gw jl repr pname cfg True n =
           (case extract_by_categories gw jl repr (questions cfg) post ([], n2) of
              (Inl e, n') \<Rightarrow> (Inl e, n')
            | (Inr after, n') \<Rightarrow>
                (Inr (Some \<lparr>product_name = pname,
                            answers = before @
                              map (raw_record repr answers_json cat)
                                  (questions_for_category (questions cfg) cat) @
                              after\<rparr>), n')) \<and>
         (\<forall>q \<in> set (questions_for_category (questions cfg) cat).
            \<lparr>question_id = q_id q, question_text = q_text q,
             answer = (case map_of answers_json (q_id q) of
                         None \<Rightarrow> ''Answer not found by LLM.''
                       | Some (JStr s) \<Rightarrow> s
                       | Some v \<Rightarrow> repr v),
             category = cat, status = ''raw'', correction_reason = None\<rparr>
              \<in> set (map (raw_record repr answers_json cat)
                          (questions_for_category (questions cfg) cat)))"
proof -
  let ?qs = "questions cfg"
  let ?raws = "map (raw_record repr answers_json cat) (questions_for_category ?qs cat)"
  obtain x m1 where post: "extract_by_categories gw jl repr ?qs post ([], n2) = (x, m1)"
    by (cases "extract_by_categories gw jl repr ?qs post ([], n2)")
  have ca: "category_answers gw jl repr ?qs cat n1 = (Inr ?raws, n2)"
    using sel call obj by (rule category_answers_object)
  have loop: "extract_by_categories gw jl repr ?qs (categories cfg) ([], n) =
      (map_sum id (\<lambda>rs. before @ ?raws @ rs) x, m1)"
    unfolding cats extract_split [OF pre ca] by (simp add: post)
  have ne: "categories cfg \<noteq> []" "questions cfg \<noteq> []"
    using cats qfc_nonempty_questions [OF sel] by simp_all
  have 2: "extract_answers_for_product provider gw jl repr pname cfg True n =
           (case extract_by_categories gw jl repr ?qs post ([], n2) of
              (Inl e, n') \<Rightarrow> (Inl e, n')
            | (Inr after, n') \<Rightarrow>
                (Inr (Some \<lparr>product_name = pname, answers = before @ ?raws @ after\<rparr>), n'))"
    using doc ne by (cases x) (simp_all add: extract_by_category_run loop post)
  have rec: "raw_record repr answers_json cat q =
            \<lparr>question_id = q_id q, question_text = q_text q,
             answer = (case map_of answers_json (q_id q) of
                         None \<Rightarrow> ''Answer not found by LLM.''
                       | Some (JStr s) \<Rightarrow> s
                       | Some v \<Rightarrow> repr v),
             category = cat, status = ''raw'', correction_reason = None\<rparr>" for q
    by (simp add: raw_record_def dict_get_default_def py_str_def split: option.splits json.splits)
  have 3: "\<forall>q \<in> set (questions_for_category ?qs cat).
            \<lparr>question_id = q_id q, question_text = q_text q,
             answer = (case map_of answers_json (q_id q) of
                         None \<Rightarrow> ''Answer not found by LLM.''
                       | Some (JStr s) \<Rightarrow> s
                       | Some v \<Rightarrow> repr v),
             category = cat, status = ''raw'', correction_reason = None\<rparr> \<in> set ?raws"
    using rec by (metis (no_types, lifting) image_eqI list.set_map)
  from ca 2 3 show ?thesis by blast
qed

theorem extract_accepted_object_witness:
  \<open>extract_answers_for_product (fixed_provider ''# Policy'')
     (scripted_gateway [Returns (Some ''{"q1": "Covered, 500 CHF", "q2": ""}''),
                        Returns (Some ''{}'')])
     (table_loads [(''{"q1": "Covered, 500 CHF", "q2": ""}'',
                      Inr (JObj [(''q1'', JStr ''Covered, 500 CHF''), (''q2'', JStr [])])),
                   (''{}'', Inr (JObj []))])
     no_repr ''AlphaCare'' alpha_config True 0
   = (Inr (Some \<lparr>product_name = ''AlphaCare'',
         answers = [
           \<lparr>question_id = ''q1'', question_text = ''Is dental treatment covered?'',
            answer = ''Covered, 500 CHF'', category = ''Dental'', status = ''raw'',
            correction_reason = None\<rparr>,
           \<lparr>question_id = ''q2'', question_text = ''What is the waiting period?'',
            answer = [], category = ''Dental'', status = ''raw'',
            correction_reason = None\<rparr>,
           \<lparr>question_id = ''q3'', question_text = ''Are glasses covered?'',
            answer = ''Answer not found by LLM.'', category = ''Vision'', status = ''raw'',
            correction_reason = None\<rparr>]\<rparr>), 2)\<close>
proof -
  let ?r = \<open>''{"q1": "Covered, 500 CHF", "q2": ""}''\<close>
  let ?gw = "scripted_gateway [Returns (Some ?r), Returns (Some ''{}'')]"
  let ?obj = "[(''q1'', JStr ''Covered, 500 CHF''), (''q2'', JStr [])] :: (string \<times> nat json) list"
  let ?jl = "table_loads [(?r, Inr (JObj ?obj)), (''{}'', Inr (JObj []))]"
  let ?q3 = "\<lparr>question_id = ''q3'', question_text = ''Are glasses covered?'',
            answer = ''Answer not found by LLM.'', category = ''Vision'', status = ''raw'',
            correction_reason = None :: nat json option\<rparr>"
  have doc: "fixed_provider ''# Policy'' ''AlphaCare'' = Some ''# Policy''" "''# Policy'' \<noteq> []"
    by (simp_all add: fixed_provider_def)
  have cats: "categories alpha_config = [] @ ''Dental'' # [''Vision'']"
    by (simp add: alpha_config_def)
  have sel: "questions_for_category (questions alpha_config) ''Dental'' \<noteq> []"
    by (simp add: run_simps)
  have pre: "extract_by_categories ?gw ?jl no_repr (questions alpha_config) [] ([], 0) = (Inr [], 0)"
    by simp
  have call: "call_llm_with_retry ?gw MAX_LLM_RETRIES 0 = (Some ?r, 1)"
    by (simp add: run_simps)
  have obj: "decode_response ?jl ?r = Inr (JObj ?obj)"
    by (simp add: run_simps)
  have post: "extract_by_categories ?gw ?jl no_repr (questions alpha_config) [''Vision''] ([], 1)
                = (Inr [?q3], 2)"
    by (simp add: run_simps)
  from extract_accepted_object [where provider = "fixed_provider ''# Policy''" and pname = "''AlphaCare''",
         OF doc cats sel pre call obj]
  have "extract_answers_for_product (fixed_provider ''# Policy'') ?gw ?jl no_repr ''AlphaCare''
          alpha_config True 0 =
        (case extract_by_categories ?gw ?jl no_repr (questions alpha_config) [''Vision''] ([], 1) of
           (Inl e, n') \<Rightarrow> (Inl e, n')
         | (Inr after, n') \<Rightarrow>
             (Inr (Some \<lparr>product_name = ''AlphaCare'',
                         answers = [] @
                           map (raw_record no_repr ?obj ''Dental'')
                               (questions_for_category (questions alpha_config) ''Dental'') @
                           after\<rparr>), n'))"
    by blast
  then show ?thesis
    unfolding post by (simp add: run_simps)
qed


subsection \<open>A category whose replies are all rejected\<close>

text \<open>
  C7. In a run by categories, let \<open>cat\<close> be a configured category with at least one
  question, reached at call number \<open>n1\<close> after the categories \<open>pre\<close> have produced the
  records \<open>before\<close>, and let each of its three attempts return a text that is not of JSON
  shape. Then the loop body for \<open>cat\<close> raises nothing and appends, for every question of
  \<open>cat\<close>, the record with status \<open>error_llm\<close> and the sentinel answer; the run goes on
  with the categories \<open>post\<close> from the call after the third attempt, and its outcome is
  theirs with the records \<open>before\<close> and the error records in front. The other categories
  are unaffected: under any gateway \<open>gw'\<close> that gives the same replies to the calls of
  \<open>pre\<close> and of \<open>post\<close>, whatever it replies to \<open>cat\<close> and however many calls \<open>cat\<close> takes,
  the records \<open>before\<close> and those of \<open>post\<close> (or the exception \<open>post\<close> raises) are the same.
\<close>

theorem extract_rejected_category:
  assumes doc: "provider pname = Some md" "md \<noteq> []"
    and cats: "categories cfg = pre @ cat # post"
    and sel: "questions_for_category (questions cfg) cat \<noteq> []"
    and pre: "extract_by_categories gw jl repr (questions cfg) pre ([], n) = (Inr before, n1)"
    and bad: "\<forall>i < MAX_LLM_RETRIES. \<exists>t. gw (n1 + i) = Returns (Some t) \<and> \<not> json_shaped (py_strip t)"
  shows "category_answers gw jl repr (questions cfg) cat n1 =
           (Inr (map (error_llm_record cat) (questions_for_category (questions cfg) cat)),
            n1 + MAX_LLM_RETRIES) \<and>
         extract_answers_for_product provider gw jl repr pname cfg True n =
           (case extract_by_categories gw jl repr (questions cfg) post ([], n1 + MAX_LLM_RETRIES) of
              (Inl e, n') \<Rightarrow> (Inl e, n')
            | (Inr after, n') \<Rightarrow>
                (Inr (Some \<lparr>product_name = pname,
                            answers = before @
                              map (error_llm_record cat) (questions_for_category (questions cfg) cat) @
                              after\<rparr>), n')) \<and>
         (\<forall>q \<in> set (questions_for_category (questions cfg) cat).
            \<lparr>question_id = q_id q, question_text = q_text q,
             answer = ''Error: LLM extraction failed'', category = cat, status = ''error_llm'',
             correction_reason = None\<rparr>
              \<in> set (map (error_llm_record cat) (questions_for_category (questions cfg) cat))) \<and>
         (\<forall>gw' k recs'.
            (\<forall>i < n1. gw' i = gw i) \<and>
            category_answers gw' jl repr (questions cfg) cat n1 = (Inr recs', n1 + k) \<and>
            (\<forall>i. gw' (n1 + k + i) = gw (n1 + MAX_LLM_RETRIES + i)) \<longrightarrow>
            fst (extract_answers_for_product provider gw' jl repr pname cfg True n) =
              (case fst (extract_by_categories gw jl repr (questions cfg) post
                           ([], n1 + MAX_LLM_RETRIES)) of
                 Inl e \<Rightarrow> Inl e
               | Inr after \<Rightarrow>
                   Inr (Some \<lparr>product_name = pname, answers = before @ recs' @ after\<rparr>)))"
proof -
  let ?qs = "questions cfg"
  let ?errs = "map (error_llm_record cat) (questions_for_category ?qs cat)"
  obtain x m1 where post: "extract_by_categories gw jl repr ?qs post ([], n1 + MAX_LLM_RETRIES) = (x, m1)"
    by (cases "extract_by_categories gw jl repr ?qs post ([], n1 + MAX_LLM_RETRIES)")
  have ne: "categories cfg \<noteq> []" "questions cfg \<noteq> []"
    using cats qfc_nonempty_questions [OF sel] by simp_all
  have rej: "\<not> accepted (gw (n1 + i))" if "i < MAX_LLM_RETRIES" for i
    using bad that by (auto simp: accepted_def)
  have ca: "category_answers gw jl repr ?qs cat n1 = (Inr ?errs, n1 + MAX_LLM_RETRIES)"
    using sel rej by (intro category_answers_rejected) simp_all
  have loop: "extract_by_categories gw jl repr ?qs (categories cfg) ([], n) =
      (map_sum id (\<lambda>rs. before @ ?errs @ rs) x, m1)"
    unfolding cats extract_split [OF pre ca] by (simp add: post)
  have 2: "extract_answers_for_product provider gw jl repr pname cfg True n =
           (case extract_by_categories gw jl repr ?qs post ([], n1 + MAX_LLM_RETRIES) of
              (Inl e, n') \<Rightarrow> (Inl e, n')
            | (Inr after, n') \<Rightarrow>
                (Inr (Some \<lparr>product_name = pname, answers = before @ ?errs @ after\<rparr>), n'))"
    using doc ne by (cases x) (simp_all add: extract_by_category_run loop post)
  have 3: "\<forall>q \<in> set (questions_for_category ?qs cat).
            \<lparr>question_id = q_id q, question_text = q_text q,
             answer = ''Error: LLM extraction failed'', category = cat, status = ''error_llm'',
             correction_reason = None\<rparr> \<in> set ?errs"
    by (auto simp: error_llm_record_def image_iff)
  have 4: "fst (extract_answers_for_product provider gw' jl repr pname cfg True n) =
              (case fst (extract_by_categories gw jl repr ?qs post ([], n1 + MAX_LLM_RETRIES)) of
                 Inl e \<Rightarrow> Inl e
               | Inr after \<Rightarrow>
                   Inr (Some \<lparr>product_name = pname, answers = before @ recs' @ after\<rparr>))"
    if same: "\<forall>i < n1. gw' i = gw i"
      and ca': "category_answers gw' jl repr ?qs cat n1 = (Inr recs', n1 + k)"
      and shift: "\<forall>i. gw' (n1 + k + i) = gw (n1 + MAX_LLM_RETRIES + i)"
    for gw' k recs'
  proof -
    have nn1: "n \<le> n1" by (rule extract_mono [OF pre])
    have "extract_by_categories gw' jl repr ?qs pre ([], n) = (Inr before, n + (n1 - n))"
    proof (rule extract_agree [OF pre])
      fix i assume "i < n1 - n"
      then have "n + i < n1" by simp
      with same show "gw' (n + i) = gw (n + i)" by blast
    qed
    with nn1 have pre': "extract_by_categories gw' jl repr ?qs pre ([], n) = (Inr before, n1)"
      by simp
    have post': "extract_by_categories gw' jl repr ?qs post ([], n1 + k) =
                   (x, n1 + k + (m1 - (n1 + MAX_LLM_RETRIES)))"
      using shift by (intro extract_agree [OF post]) simp
    have loop': "extract_by_categories gw' jl repr ?qs (categories cfg) ([], n) =
      (map_sum id (\<lambda>rs. before @ recs' @ rs) x, n1 + k + (m1 - (n1 + MAX_LLM_RETRIES)))"
      unfolding cats extract_split [OF pre' ca'] by (simp add: post')
    show ?thesis
      using doc ne by (cases x) (simp_all add: extract_by_category_run loop' post)
  qed
  from ca 2 3 4 show ?thesis by blast
qed


theorem extract_rejected_category_witness:
  \<open>extract_answers_for_product (fixed_provider ''# Policy'')
     (scripted_gateway [Returns (Some ''{}''),
                        Returns (Some ''not json''), Returns (Some ''not json''),
                        Returns (Some ''not json''),
                        Returns (Some ''busy''), Returns (Some ''{}'')])
     (table_loads [(''{"q1": "Covered, 500 CHF", "q2": ""}'',
                      Inr (JObj [(''q1'', JStr ''Covered, 500 CHF''), (''q2'', JStr [])])),
                   (''{}'', Inr (JObj []))])
     no_repr ''AlphaCare'' wide_config True 0
   = (Inr (Some \<lparr>product_name = ''AlphaCare'',
         answers = [
           \<lparr>question_id = ''q0'', question_text = ''Are accidents covered?'',
            answer = ''Answer not found by LLM.'', category = ''Accident'', status = ''raw'',
            correction_reason = None\<rparr>,
           \<lparr>question_id = ''q1'', question_text = ''Is dental treatment covered?'',
            answer = ''Error: LLM extraction failed'', category = ''Dental'',
            status = ''error_llm'', correction_reason = None\<rparr>,
           \<lparr>question_id = ''q2'', question_text = ''What is the waiting period?'',
            answer = ''Error: LLM extraction failed'', category = ''Dental'',
            status = ''error_llm'', correction_reason = None\<rparr>,
           \<lparr>question_id = ''q3'', question_text = ''Are glasses covered?'',
            answer = ''Answer not found by LLM.'', category = ''Vision'', status = ''raw'',
            correction_reason = None\<rparr>]\<rparr>), 6) \<and>
   fst (extract_answers_for_product (fixed_provider ''# Policy'')
     (scripted_gateway [Returns (Some ''{}''),
                        Returns (Some ''{"q1": "Covered, 500 CHF", "q2": ""}''),
                        Returns (Some ''busy''), Returns (Some ''{}'')])
     (table_loads [(''{"q1": "Covered, 500 CHF", "q2": ""}'',
                      Inr (JObj [(''q1'', JStr ''Covered, 500 CHF''), (''q2'', JStr [])])),
                   (''{}'', Inr (JObj []))])
     no_repr ''AlphaCare'' wide_config True 0)
   = Inr (Some \<lparr>product_name = ''AlphaCare'',
         answers = [
           \<lparr>question_id = ''q0'', question_text = ''Are accidents covered?'',
            answer = ''Answer not found by LLM.'', category = ''Accident'', status = ''raw'',
            correction_reason = None\<rparr>,
           \<lparr>question_id = ''q1'', question_text = ''Is dental treatment covered?'',
            answer = ''Covered, 500 CHF'', category = ''Dental'', status = ''raw'',
            correction_reason = None\<rparr>,
           \<lparr>question_id = ''q2'', question_text = ''What is the waiting period?'',
            answer = [], category = ''Dental'', status = ''raw'', correction_reason = None\<rparr>,
           \<lparr>question_id = ''q3'', question_text = ''Are glasses covered?'',
            answer = ''Answer not found by LLM.'', category = ''Vision'', status = ''raw'',
            correction_reason = None\<rparr>]\<rparr>)\<close>
proof -
  let ?r = \<open>''{"q1": "Covered, 500 CHF", "q2": ""}''\<close>
  let ?tail = "[Returns (Some ''busy''), Returns (Some ''{}'')]"
  let ?gw = "scripted_gateway (Returns (Some ''{}'') # Returns (Some ''not json'') #
               Returns (Some ''not json'') # Returns (Some ''not json'') # ?tail)"
  let ?gw' = "scripted_gateway (Returns (Some ''{}'') # Returns (Some ?r) # ?tail)"
  let ?obj = "[(''q1'', JStr ''Covered, 500 CHF''), (''q2'', JStr [])] :: (string \<times> nat json) list"
  let ?jl = "table_loads [(?r, Inr (JObj ?obj)), (''{}'', Inr (JObj []))]"
  let ?q0 = "\<lparr>question_id = ''q0'', question_text = ''Are accidents covered?'',
            answer = ''Answer not found by LLM.'', category = ''Accident'', status = ''raw'',
            correction_reason = None :: nat json option\<rparr>"
  let ?q3 = "\<lparr>question_id = ''q3'', question_text = ''Are glasses covered?'',
            answer = ''Answer not found by LLM.'', category = ''Vision'', status = ''raw'',
            correction_reason = None :: nat json option\<rparr>"
  let ?raws = "map (raw_record no_repr ?obj ''Dental'')
                 (questions_for_category (questions wide_config) ''Dental'')"
  have doc: "fixed_provider ''# Policy'' ''AlphaCare'' = Some ''# Policy''" "''# Policy'' \<noteq> []"
    by (simp_all add: fixed_provider_def)
  have cats: "categories wide_config = [''Accident''] @ ''Dental'' # [''Vision'']"
    by (simp add: wide_config_def)
  have sel: "questions_for_category (questions wide_config) ''Dental'' \<noteq> []"
    by (simp add: run_simps wide_config_def)
  have pre: "extract_by_categories ?gw ?jl no_repr (questions wide_config) [''Accident''] ([], 0)
               = (Inr [?q0], 1)"
    by (simp add: run_simps wide_config_def)
  have bad: "\<forall>i < MAX_LLM_RETRIES. \<exists>t. ?gw (1 + i) = Returns (Some t) \<and> \<not> json_shaped (py_strip t)"
    by (simp add: run_simps less_Suc_eq)
  have post: "extract_by_categories ?gw ?jl no_repr (questions wide_config) [''Vision'']
                ([], 1 + MAX_LLM_RETRIES) = (Inr [?q3], 6)"
    by (simp add: run_simps wide_config_def)
  have same: "\<forall>i < 1. ?gw' i = ?gw i"
    by (simp add: scripted_gateway_def)
  have ca': "category_answers ?gw' ?jl no_repr (questions wide_config) ''Dental'' 1
               = (Inr ?raws, 1 + 1)"
    by (simp add: run_simps wide_config_def)
  have shift: "\<forall>i. ?gw' (1 + 1 + i) = ?gw (1 + MAX_LLM_RETRIES + i)"
    by (simp add: MAX_LLM_RETRIES_def numeral_3_eq_3 scripted_shift)
  note concl = extract_rejected_category [where provider = "fixed_provider ''# Policy''"
      and pname = "''AlphaCare''", OF doc cats sel pre bad]
  from concl have run: "extract_answers_for_product (fixed_provider ''# Policy'') ?gw ?jl no_repr
        ''AlphaCare'' wide_config True 0 =
      (case extract_by_categories ?gw ?jl no_repr (questions wide_config) [''Vision'']
              ([], 1 + MAX_LLM_RETRIES) of
         (Inl e, n') \<Rightarrow> (Inl e, n')
       | (Inr after, n') \<Rightarrow>
           (Inr (Some \<lparr>product_name = ''AlphaCare'',
                       answers = [?q0] @
                         map (error_llm_record ''Dental'')
                           (questions_for_category (questions wide_config) ''Dental'') @
                         after\<rparr>), n'))"
    by blast
  from concl same ca' shift
  have other: "fst (extract_answers_for_product (fixed_provider ''# Policy'') ?gw' ?jl no_repr
        ''AlphaCare'' wide_config True 0) =
      (case fst (extract_by_categories ?gw ?jl no_repr (questions wide_config) [''Vision'']
                   ([], 1 + MAX_LLM_RETRIES)) of
         Inl e \<Rightarrow> Inl e
       | Inr after \<Rightarrow>
           Inr (Some \<lparr>product_name = ''AlphaCare'', answers = [?q0] @ ?raws @ after\<rparr>))"
    by blast
  from run other show ?thesis
    unfolding post by (simp add: run_simps wide_config_def)
qed


subsection \<open>Truncation\<close>

text \<open>
  C4. A text of at most 280,000 characters is returned unchanged. A longer text is cut to
  its first 280,000 characters followed by the truncation marker: the result has length
  280,000 plus the marker's length and ends in the marker. The result does not depend on
  the product name.
\<close>

theorem truncate_markdown_spec:
  "MAX_MARKDOWN_CONTEXT_CHARS = 280000 \<and>
   (length text \<le> MAX_MARKDOWN_CONTEXT_CHARS \<longrightarrow> truncate_markdown text pn = text) \<and>
   (length text > MAX_MARKDOWN_CONTEXT_CHARS \<longrightarrow>
      truncate_markdown text pn = take MAX_MARKDOWN_CONTEXT_CHARS text @ TRUNCATION_MARKER \<and>
      length (truncate_markdown text pn) = MAX_MARKDOWN_CONTEXT_CHARS + length TRUNCATION_MARKER \<and>
      drop MAX_MARKDOWN_CONTEXT_CHARS (truncate_markdown text pn) = TRUNCATION_MARKER) \<and>
   truncate_markdown text pn = truncate_markdown text pn'"
  by (simp add: truncate_markdown_def MAX_MARKDOWN_CONTEXT_CHARS_def)

theorem truncate_markdown_spec_witness:
  "truncate_markdown ''abc'' ''AlphaCare'' = ''abc'' \<and>
   truncate_markdown (replicate 280001 (CHR ''a'')) ''AlphaCare''
     = replicate 280000 (CHR ''a'') @ TRUNCATION_MARKER \<and>
   length (truncate_markdown (replicate 280001 (CHR ''a'')) ''AlphaCare'') = 280024"
proof -
  have short: "length ''abc'' \<le> MAX_MARKDOWN_CONTEXT_CHARS"
    by (simp add: MAX_MARKDOWN_CONTEXT_CHARS_def)
  have long: "length (replicate 280001 (CHR ''a'')) > MAX_MARKDOWN_CONTEXT_CHARS"
    by (simp add: MAX_MARKDOWN_CONTEXT_CHARS_def)
  have m: "length TRUNCATION_MARKER = 24"
    by (simp add: TRUNCATION_MARKER_def)
  from short truncate_markdown_spec [of "''abc''" "''AlphaCare''" "''AlphaCare''"]
  have 1: "truncate_markdown ''abc'' ''AlphaCare'' = ''abc''" by blast
  from long truncate_markdown_spec [of "replicate 280001 (CHR ''a'')" "''AlphaCare''" "''AlphaCare''"]
  have 2: "truncate_markdown (replicate 280001 (CHR ''a'')) ''AlphaCare''
             = take MAX_MARKDOWN_CONTEXT_CHARS (replicate 280001 (CHR ''a'')) @ TRUNCATION_MARKER"
    and 3: "length (truncate_markdown (replicate 280001 (CHR ''a'')) ''AlphaCare'')
             = MAX_MARKDOWN_CONTEXT_CHARS + length TRUNCATION_MARKER"
    by blast+
  from 1 2 3 m show ?thesis
    by (simp add: MAX_MARKDOWN_CONTEXT_CHARS_def)
qed

subsection \<open>Applying no correction\<close>

text \<open>
  C2 at a concrete input. The two records the extraction produces for a question that
  applies to the categories Dental and Vision have one \<open>question_id\<close>; applied with an empty
  corrections list, \<open>apply_corrections\<close> returns the Vision record alone, which is not the
  multiset of the two records it was given.
\<close>

theorem apply_corrections_empty_loses_record:
  "apply_corrections no_repr shared_answers [] ''AlphaCare'' = Inr [shared_answers ! 1] \<and>
   length shared_answers = 2 \<and>
   mset [shared_answers ! 1] \<noteq> mset shared_answers"
  by (simp add: apply_simps)

subsection \<open>Applying the same corrections twice\<close>

text \<open>
  C8. For every list of answer records and every corrections list whose \<open>question_id\<close>
  values can be looked up in the map (no list, no dict), \<open>apply_corrections\<close> returns a list
  \<open>r\<close> with one record per \<open>question_id\<close>, and applying the same corrections to \<open>r\<close> returns
  \<open>r\<close> again: every record, hence every \<open>answer\<close>, \<open>status\<close> and \<open>correction_reason\<close>, is the
  same after the second application as after the first.
\<close>

theorem apply_corrections_twice:
  assumes "hashable_ids cs"
  shows "\<exists>r. apply_corrections repr original cs pname = Inr r \<and>
             apply_corrections repr r cs pname' = Inr r \<and>
             distinct (map question_id r)"
proof -
  let ?g = "\<lambda>a. corrected_by repr cs (question_id a) a"
  let ?b = "map snd (answers_map original)"
  let ?r = "map ?g ?b"
  have once: "apply_corrections repr original cs pname = Inr ?r"
    by (rule apply_corrections_char [OF assms])
  have ids: "map question_id ?r = map question_id ?b"
    by (simp add: comp_def corrected_by_id)
  have d: "distinct (map question_id ?r)"
    unfolding ids by (rule base_distinct)
  have "apply_corrections repr ?r cs pname' = Inr (map ?g (map snd (answers_map ?r)))"
    by (rule apply_corrections_char [OF assms])
  also have "map snd (answers_map ?r) = ?r"
    by (rule base_of_distinct [OF d])
  also have "map ?g ?r = ?r"
    by (simp add: comp_def corrected_by_id corrected_by_idem)
  finally have twice: "apply_corrections repr ?r cs pname' = Inr ?r" .
  from once twice d show ?thesis by blast
qed

theorem apply_corrections_twice_witness:
  "hashable_ids alpha_corrections \<and>
   apply_corrections no_repr alpha_answers alpha_corrections ''AlphaCare'' = Inr alpha_corrected \<and>
   apply_corrections no_repr alpha_corrected alpha_corrections ''AlphaCare'' = Inr alpha_corrected"
proof -
  have h: "hashable_ids alpha_corrections"
    by (simp add: apply_simps)
  have once: "apply_corrections no_repr alpha_answers alpha_corrections ''AlphaCare'' = Inr alpha_corrected"
    by (simp add: apply_simps)
  from apply_corrections_twice [OF h, of no_repr alpha_answers "''AlphaCare''" "''AlphaCare''"]
  obtain r where "apply_corrections no_repr alpha_answers alpha_corrections ''AlphaCare'' = Inr r"
    and "apply_corrections no_repr r alpha_corrections ''AlphaCare'' = Inr r"
    by blast
  with once h show ?thesis by simp
qed

subsection \<open>Corrections create no record\<close>

text \<open>
  C9. For every corrections list whose \<open>question_id\<close> values can be looked up in the map,
  \<open>apply_corrections\<close> returns records whose set of \<open>question_id\<close>s is that of the original
  answers, and never more records than it was given. A correction whose \<open>question_id\<close> is
  the id of no original record is discarded: the result is the one obtained without it.
\<close>

theorem apply_corrections_same_ids:
  assumes "hashable_ids cs"
  shows "\<exists>r. apply_corrections repr original cs pname = Inr r \<and>
             set (map question_id r) = set (map question_id original) \<and>
             length r \<le> length original \<and>
             (\<forall>cs1 c cs2. cs = cs1 @ c # cs2 \<and>
                  (\<forall>a \<in> set original. dict_get c ''question_id'' \<noteq> JStr (question_id a)) \<longrightarrow>
                  apply_corrections repr original (cs1 @ cs2) pname = Inr r)"
proof -
  let ?g = "\<lambda>a. corrected_by repr cs (question_id a) a"
  let ?b = "map snd (answers_map original)"
  let ?r = "map ?g ?b"
  have once: "apply_corrections repr original cs pname = Inr ?r"
    by (rule apply_corrections_char [OF assms])
  have "map question_id ?r = map question_id ?b"
    by (simp add: comp_def corrected_by_id)
  then have "set (map question_id ?r) = set (map question_id ?b)" by (rule arg_cong)
  then have ids: "set (map question_id ?r) = set (map question_id original)"
    by (simp only: base_ids)
  have "length ?r = card (set (map question_id ?b))"
    using distinct_card [OF base_distinct [of original]] by simp
  also have "\<dots> = card (set (map question_id original))"
    by (simp only: base_ids)
  also have "\<dots> \<le> length original"
    using card_length [of "map question_id original"] by simp
  finally have len: "length ?r \<le> length original" .
  have disc: "apply_corrections repr original (cs1 @ cs2) pname = Inr ?r"
    if cs: "cs = cs1 @ c # cs2"
      and unknown: "\<forall>a \<in> set original. dict_get c ''question_id'' \<noteq> JStr (question_id a)"
    for cs1 c cs2
  proof -
    have h: "hashable_ids (cs1 @ cs2)"
      using assms cs by (simp add: hashable_ids_def)
    have "map (\<lambda>a. corrected_by repr (cs1 @ cs2) (question_id a) a) ?b = ?r"
    proof (rule map_cong [OF refl])
      fix a assume "a \<in> set ?b"
      then have "question_id a \<in> set (map question_id ?b)" by auto
      then have "question_id a \<in> set (map question_id original)"
        by (simp only: base_ids)
      then have "question_id a \<in> question_id ` set original"
        by simp
      then have "dict_get c ''question_id'' \<noteq> JStr (question_id a)"
        using unknown by auto
      then show "corrected_by repr (cs1 @ cs2) (question_id a) a =
                 corrected_by repr cs (question_id a) a"
        unfolding cs by (rule corrected_by_skip [symmetric])
    qed
    then show ?thesis by (simp add: apply_corrections_char [OF h])
  qed
  from once ids len disc show ?thesis by blast
qed


theorem apply_corrections_same_ids_witness:
  "hashable_ids alpha_corrections \<and>
   apply_corrections no_repr alpha_answers alpha_corrections ''AlphaCare'' = Inr alpha_corrected \<and>
   set (map question_id alpha_corrected) = set (map question_id alpha_answers) \<and>
   apply_corrections no_repr alpha_answers [alpha_corrections ! 0, alpha_corrections ! 2] ''AlphaCare''
     = Inr alpha_corrected"
proof -
  have h: "hashable_ids alpha_corrections"
    by (simp add: apply_simps)
  have once: "apply_corrections no_repr alpha_answers alpha_corrections ''AlphaCare'' = Inr alpha_corrected"
    by (simp add: apply_simps)
  have split: "alpha_corrections = [alpha_corrections ! 0] @ alpha_corrections ! 1 # [alpha_corrections ! 2]"
    by (simp add: alpha_corrections_def)
  have unknown: "\<forall>a \<in> set alpha_answers.
      dict_get (alpha_corrections ! 1) ''question_id'' \<noteq> JStr (question_id a)"
    by (simp add: apply_simps)
  from apply_corrections_same_ids [OF h, of no_repr alpha_answers "''AlphaCare''"]
  obtain r where r: "apply_corrections no_repr alpha_answers alpha_corrections ''AlphaCare'' = Inr r"
    and ids: "set (map question_id r) = set (map question_id alpha_answers)"
    and disc: "\<forall>cs1 c cs2. alpha_corrections = cs1 @ c # cs2 \<and>
                  (\<forall>a \<in> set alpha_answers. dict_get c ''question_id'' \<noteq> JStr (question_id a)) \<longrightarrow>
                  apply_corrections no_repr alpha_answers (cs1 @ cs2) ''AlphaCare'' = Inr r"
    by blast
  from r once have eq: "r = alpha_corrected" by simp
  from disc split unknown
  have "apply_corrections no_repr alpha_answers ([alpha_corrections ! 0] @ [alpha_corrections ! 2]) ''AlphaCare'' = Inr r"
    by blast
  with h once ids eq show ?thesis by simp
qed

subsection \<open>A review response that is an array\<close>

text \<open>
  C3 at a concrete input. The response \<open>["corrections"]\<close> passes the shape check of the
  retrying caller and decodes to a list holding the string \<open>corrections\<close>. The membership
  test then succeeds, indexing the list by a string raises \<open>TypeError\<close>, and the handler
  catches \<open>JSONDecodeError\<close> and \<open>ValueError\<close> only: the exception leaves
  \<open>self_correct_answers\<close>.
\<close>

theorem self_correct_answers_type_error:
  \<open>self_correct_answers (fixed_provider ''# Policy'')
     (scripted_gateway [Returns (Some ''["corrections"]'')])
     (table_loads [(''["corrections"]'', Inr (JArr [JStr ''corrections'']))])
     ''AlphaCare'' alpha_answers 0
   = (Inl TypeError, 1)\<close>
  by (simp add: self_correct_answers_def review_corrections_def py_contains_def py_getitem_def
        run_simps)

text \<open>
  C10 at a concrete input. The decoded response \<open>["corrections"]\<close> has no top-level key
  \<open>corrections\<close>, yet validation does not end in the failure value: the membership test
  holds for the list, and reading the key raises \<open>TypeError\<close>. For a decoded object the
  validation is the one claimed (\<open>review_corrections_object\<close>, \<open>valid_corrections_filter\<close>).
\<close>

theorem review_corrections_array_type_error:
  "review_corrections (Inr (JArr [JStr ''corrections'' :: nat json])) = Inl TypeError \<and>
   py_contains (JArr [JStr ''corrections'' :: nat json]) ''corrections'' = Inr True \<and>
   py_getitem (JArr [JStr ''corrections'' :: nat json]) ''corrections'' = Inl TypeError"
  by (simp add: review_corrections_def py_contains_def py_getitem_def)

end
